theory Spec2Isabelle
  imports Complex_Main "HOL-Library.Log_Nat" "HOL-Library.AList"
begin

section \<open>ECMAScript numbers\<close>

text \<open>
  A Number is an IEEE 754 binary64 value. The finite ones are carried by the rational they
  denote; the two zeros are both \<open>Fin 0\<close> (the codec never divides by a variable, prints a
  zero with its sign or compares with \<open>Object.is\<close>, so it cannot tell them apart).
\<close>

datatype jsnum = Fin rat | PInf | NInf | NaN

text \<open>\<open>ilog2 x\<close> is the binary exponent of a nonzero rational: \<open>2 ^ e \<le> |x| < 2 ^ (e + 1)\<close>.\<close>

definition ilog2 :: "rat \<Rightarrow> int" where
  "ilog2 x = (let (p, q) = quotient_of \<bar>x\<bar>; d = bitlen p - bitlen q
              in if 2 powi d \<le> \<bar>x\<bar> then d else d - 1)"

text \<open>Rounding to the nearest integer, a tie going to the even neighbour.\<close>

definition round_even :: "rat \<Rightarrow> int" where
  "round_even r = (let f = \<lfloor>r\<rfloor>; d = r - of_int f
                   in if d < 1 / 2 then f else if 1 / 2 < d then f + 1
                      else if even f then f else f + 1)"

text \<open>
  \<open>fl x\<close> is the binary64 value of the exact result \<open>x\<close> (roundTiesToEven): 53 significant
  bits, the spacing \<open>2 ^ (e - 52)\<close> in the binade of exponent \<open>e\<close>, never finer than the
  subnormal spacing \<open>2 ^ -1074\<close>, and an infinity once the rounded magnitude reaches
  \<open>2 ^ 1024\<close>.
\<close>

definition fl :: "rat \<Rightarrow> jsnum" where
  "fl x = (if x = 0 then Fin 0
           else let q = 2 powi (max (ilog2 x) (- 1022) - 52);
                    y = of_int (round_even (x / q)) * q
                in if 2 ^ 1024 \<le> y then PInf
                   else if y \<le> - (2 ^ 1024) then NInf
                   else Fin y)"

fun fneg :: "jsnum \<Rightarrow> jsnum" where
  "fneg (Fin a) = Fin (- a)"
| "fneg PInf = NInf"
| "fneg NInf = PInf"
| "fneg NaN = NaN"

text \<open>The operators \<open>+\<close>, \<open>-\<close>, \<open>*\<close> and \<open>/\<close> on Numbers.\<close>

fun fadd :: "jsnum \<Rightarrow> jsnum \<Rightarrow> jsnum" where
  "fadd (Fin a) (Fin b) = fl (a + b)"
| "fadd NaN _ = NaN"
| "fadd _ NaN = NaN"
| "fadd PInf NInf = NaN"
| "fadd NInf PInf = NaN"
| "fadd PInf _ = PInf"
| "fadd NInf _ = NInf"
| "fadd _ PInf = PInf"
| "fadd _ NInf = NInf"

definition fsub :: "jsnum \<Rightarrow> jsnum \<Rightarrow> jsnum" where
  "fsub a b = fadd a (fneg b)"

definition signed_inf :: "bool \<Rightarrow> jsnum" where
  "signed_inf positive = (if positive then PInf else NInf)"

fun fmul :: "jsnum \<Rightarrow> jsnum \<Rightarrow> jsnum" where
  "fmul (Fin a) (Fin b) = fl (a * b)"
| "fmul NaN _ = NaN"
| "fmul _ NaN = NaN"
| "fmul PInf (Fin b) = (if b = 0 then NaN else signed_inf (0 < b))"
| "fmul NInf (Fin b) = (if b = 0 then NaN else signed_inf (b < 0))"
| "fmul (Fin a) PInf = (if a = 0 then NaN else signed_inf (0 < a))"
| "fmul (Fin a) NInf = (if a = 0 then NaN else signed_inf (a < 0))"
| "fmul PInf PInf = PInf"
| "fmul NInf NInf = PInf"
| "fmul PInf NInf = NInf"
| "fmul NInf PInf = NInf"

text \<open>
  Division. A zero divisor is read as \<open>+0\<close>; every divisor of the codec is one of the
  literals \<open>2.54\<close>, \<open>360\<close> (\<open>zigbeeRange\<close>) and \<open>204\<close> (\<open>ikeaRange\<close>).
\<close>

fun fdiv :: "jsnum \<Rightarrow> jsnum \<Rightarrow> jsnum" where
  "fdiv (Fin a) (Fin b) =
     (if b = 0 then (if a = 0 then NaN else signed_inf (0 < a)) else fl (a / b))"
| "fdiv NaN _ = NaN"
| "fdiv _ NaN = NaN"
| "fdiv (Fin a) _ = Fin 0"
| "fdiv PInf (Fin b) = signed_inf (0 \<le> b)"
| "fdiv NInf (Fin b) = signed_inf (b < 0)"
| "fdiv _ _ = NaN"

text \<open>
  \<open>Math.round\<close>: the nearest integer, a tie going towards \<open>+\<infinity>\<close>; \<open>NaN\<close> and the
  infinities are returned as they are.
\<close>

fun js_round :: "jsnum \<Rightarrow> jsnum" where
  "js_round (Fin x) = Fin (of_int \<lfloor>x + 1 / 2\<rfloor>)"
| "js_round n = n"

text \<open>The comparison \<open>a <= b\<close> of two Numbers; it is false when either is \<open>NaN\<close>.\<close>

fun num_le :: "jsnum \<Rightarrow> jsnum \<Rightarrow> bool" where
  "num_le NaN _ = False"
| "num_le _ NaN = False"
| "num_le NInf _ = True"
| "num_le _ PInf = True"
| "num_le (Fin a) (Fin b) = (a \<le> b)"
| "num_le _ _ = False"

section \<open>ECMAScript values\<close>

text \<open>
  The values the codec handles. An object is the list of its own properties, each key
  once; \<open>JSON.parse\<close> yields values without \<open>JUndefined\<close> and \<open>NaN\<close>.
\<close>

datatype jsval =
    JUndefined
  | JNull
  | JBool bool
  | JNum jsnum
  | JStr string
  | JArr "jsval list"
  | JObj "(string \<times> jsval) list"

text \<open>
  \<open>TypeError\<close> is the exception of the program. \<open>Unmodelled\<close> is no exception: it marks a
  call that needs a conversion of ECMAScript not embedded here (\<open>ToPrimitive\<close> of an array
  or object, \<open>ToNumber\<close> of a string that is not a decimal integer literal).
\<close>

datatype error = TypeError | Unmodelled

text \<open>\<open>ToBoolean\<close>, the test of \<open>if (v)\<close> and \<open>v ? a : b\<close>.\<close>

fun truthy :: "jsval \<Rightarrow> bool" where
  "truthy JUndefined = False"
| "truthy JNull = False"
| "truthy (JBool b) = b"
| "truthy (JNum n) = (n \<noteq> Fin 0 \<and> n \<noteq> NaN)"
| "truthy (JStr s) = (s \<noteq> [])"
| "truthy (JArr xs) = True"
| "truthy (JObj kvs) = True"

text \<open>
  The property read \<open>v.k\<close> for the names the codec reads (\<open>state\<close>, \<open>brightness\<close>,
  \<open>color_temp\<close>, \<open>color\<close>, \<open>x\<close>, \<open>y\<close>), none of which a built-in prototype defines: reading
  from \<open>null\<close> or \<open>undefined\<close> throws, an object gives its own property or \<open>undefined\<close>, any
  other value gives \<open>undefined\<close>.
\<close>

fun get :: "jsval \<Rightarrow> string \<Rightarrow> error + jsval" where
  "get JUndefined k = Inl TypeError"
| "get JNull k = Inl TypeError"
| "get (JObj kvs) k = Inr (case map_of kvs k of None \<Rightarrow> JUndefined | Some v \<Rightarrow> v)"
| "get v k = Inr JUndefined"

text \<open>Decimal integer literals: an optional sign and one or more digits.\<close>

definition is_digit :: "char \<Rightarrow> bool" where
  "is_digit c = (c \<in> set ''0123456789'')"

definition digits_value :: "string \<Rightarrow> nat" where
  "digits_value ds = foldl (\<lambda>a c. 10 * a + (of_char c - 48)) 0 ds"

definition unsigned_literal :: "string \<Rightarrow> nat option" where
  "unsigned_literal ds = (if ds \<noteq> [] \<and> list_all is_digit ds then Some (digits_value ds) else None)"

fun int_literal :: "string \<Rightarrow> int option" where
  "int_literal [] = None"
| "int_literal (c # cs) =
     (if c = CHR ''-'' then map_option (\<lambda>n. - int n) (unsigned_literal cs)
      else if c = CHR ''+'' then map_option int (unsigned_literal cs)
      else map_option int (unsigned_literal (c # cs)))"

text \<open>\<open>ToNumber\<close>, applied by the arithmetic operators to an operand that is not a Number.\<close>

fun to_number :: "jsval \<Rightarrow> error + jsnum" where
  "to_number JUndefined = Inr NaN"
| "to_number JNull = Inr (Fin 0)"
| "to_number (JBool b) = Inr (Fin (if b then 1 else 0))"
| "to_number (JNum n) = Inr n"
| "to_number (JStr s) =
     (case int_literal s of Some i \<Rightarrow> Inr (fl (of_int i)) | None \<Rightarrow> Inl Unmodelled)"
| "to_number (JArr xs) = Inl Unmodelled"
| "to_number (JObj kvs) = Inl Unmodelled"

text \<open>
  The loose comparison \<open>v == "ON"\<close>. A string is compared as a string; a Number or a
  Boolean is compared with \<open>ToNumber("ON")\<close>, which is \<open>NaN\<close>, so the result is false;
  \<open>null\<close> and \<open>undefined\<close> equal only each other.
\<close>

fun loose_eq_ON :: "jsval \<Rightarrow> error + bool" where
  "loose_eq_ON (JStr s) = Inr (s = ''ON'')"
| "loose_eq_ON (JArr xs) = Inl Unmodelled"
| "loose_eq_ON (JObj kvs) = Inl Unmodelled"
| "loose_eq_ON v = Inr False"

text \<open>
  A wire text is represented by the value it denotes: an encoder returns the value whose
  \<open>JSON.stringify\<close> text it emits, a decoder takes the value \<open>JSON.parse\<close> gives.
  \<open>JSON.stringify\<close> writes a Number that is \<open>NaN\<close> or infinite as \<open>null\<close>.
\<close>

fun json_num :: "jsnum \<Rightarrow> jsval" where
  "json_num (Fin a) = JNum (Fin a)"
| "json_num n = JNull"

section \<open>The codec\<close>

subsection \<open>The object \<open>init\<close> returns\<close>

text \<open>
  Calls of the callbacks \<open>log\<close> and \<open>output\<close> are recorded in order. \<open>LogWire p v\<close> is the
  log line made of \<open>p\<close> and the wire text that denotes \<open>v\<close>.
\<close>

datatype event = Log string | LogWire string jsval | Output string

record info =
  topic :: string
  property :: string

text \<open>The two functions of the returned object literal, in source order.\<close>

definition generic_encode :: "string \<Rightarrow> info \<Rightarrow> event list" where
  "generic_encode message i =
     [Log (''encode() called for topic ['' @ topic i @ ''], property ['' @ property i
           @ ''] with message ['' @ message @ '']''),
      Output message]"

definition generic_decode :: "string \<Rightarrow> info \<Rightarrow> event list" where
  "generic_decode message i =
     [Log (''decode() called for topic ['' @ topic i @ ''], property ['' @ property i
           @ ''] with message ['' @ message @ '']''),
      Output message]"

datatype member =
    Method "string \<Rightarrow> info \<Rightarrow> event list"
  | Properties "(string \<times> string list) list"

text \<open>
  An object literal defines its properties from left to right; a key that occurs again
  keeps its place and takes the later value.
\<close>

definition object_literal :: "(string \<times> 'v) list \<Rightarrow> (string \<times> 'v) list" where
  "object_literal kvs = foldl (\<lambda>obj (k, v). AList.update k v obj) [] kvs"

text \<open>
  \<open>init\<close> logs one line and returns the literal. Its first two members are written
  \<open>function(message, info, output) {...}\<close> with no key in front: that is the method
  shorthand, and the name of the method is \<open>function\<close>.
\<close>

definition init :: "string \<Rightarrow> event list \<times> (string \<times> member) list" where
  "init name =
     ([Log (''Tr'' @ [CHR 0xE5] @ ''dfri codec initialized with '' @ name @ ''.'')],
      object_literal
        [(''function'', Method generic_encode),
         (''function'', Method generic_decode),
         (''properties'', Properties
            [(''on'', [''encode'', ''decode'']),
             (''brightness'', [''encode'', ''decode'']),
             (''colorTemperature'', [''encode'', ''decode'']),
             (''RGB'', [''encode'', ''decode''])])])"

subsection \<open>\<open>properties.on\<close>\<close>

definition on_encode :: "jsval \<Rightarrow> jsval" where
  "on_encode message = JObj [(''state'', JStr (if truthy message then ''ON'' else ''OFF''))]"

definition on_decode :: "jsval \<Rightarrow> error + jsval" where
  "on_decode msg =
     (case get msg ''state'' of
        Inl e \<Rightarrow> Inl e
      | Inr state \<Rightarrow>
          if truthy state
          then (case loose_eq_ON state of Inl e \<Rightarrow> Inl e | Inr b \<Rightarrow> Inr (JBool b))
          else Inr JUndefined)"

subsection \<open>\<open>properties.brightness\<close>\<close>

definition brightness_encode :: "jsval \<Rightarrow> error + jsval" where
  "brightness_encode message =
     (case to_number message of
        Inl e \<Rightarrow> Inl e
      | Inr m \<Rightarrow>
          let brightness = js_round (fmul m (fl (254 / 100)))
          in Inr (JObj [(''state'', JStr (if truthy (JNum brightness) then ''ON'' else ''OFF'')),
                        (''brightness'', json_num brightness)]))"

definition brightness_decode :: "jsval \<Rightarrow> error + jsval" where
  "brightness_decode msg =
     (case get msg ''brightness'' of
        Inl e \<Rightarrow> Inl e
      | Inr b \<Rightarrow>
          if truthy b
          then (case to_number b of
                  Inl e \<Rightarrow> Inl e
                | Inr n \<Rightarrow> Inr (JNum (js_round (fdiv n (fl (254 / 100))))))
          else Inr JUndefined)"

subsection \<open>\<open>properties.colorTemperature\<close>\<close>

definition ikeaMax :: jsnum where "ikeaMax = Fin 454"
definition ikeaMin :: jsnum where "ikeaMin = Fin 250"
definition ikeaRange :: jsnum where "ikeaRange = fsub ikeaMax ikeaMin"
definition zigbeeMax :: jsnum where "zigbeeMax = Fin 500"
definition zigbeeMin :: jsnum where "zigbeeMin = Fin 140"
definition zigbeeRange :: jsnum where "zigbeeRange = fsub zigbeeMax zigbeeMin"

definition colorTemperature_encode :: "jsval \<Rightarrow> error + jsval" where
  "colorTemperature_encode message =
     (case to_number message of
        Inl e \<Rightarrow> Inl e
      | Inr m \<Rightarrow>
          let colorTemp =
                js_round (fadd (fdiv (fmul (fsub m zigbeeMin) ikeaRange) zigbeeRange) ikeaMin)
          in Inr (JObj [(''color_temp'', json_num colorTemp)]))"

definition colorTemperature_decode :: "jsval \<Rightarrow> error + jsval" where
  "colorTemperature_decode msg =
     (case get msg ''color_temp'' of
        Inl e \<Rightarrow> Inl e
      | Inr c \<Rightarrow>
          if truthy c
          then (case to_number c of
                  Inl e \<Rightarrow> Inl e
                | Inr n \<Rightarrow>
                    let colorTemp =
                          js_round
                            (fadd (fdiv (fmul (fsub n ikeaMin) zigbeeRange) ikeaRange) zigbeeMin)
                    in Inr (JNum colorTemp))
          else Inr JUndefined)"

subsection \<open>\<open>properties.RGB\<close>\<close>

text \<open>\<open>message.split(",")\<close>: the pieces between the commas, at least one.\<close>

fun split_comma :: "string \<Rightarrow> string list" where
  "split_comma [] = [[]]"
| "split_comma (c # cs) =
     (if c = CHR '','' then [] # split_comma cs
      else (case split_comma cs of p # ps \<Rightarrow> (c # p) # ps | [] \<Rightarrow> [[c]]))"

text \<open>The element read \<open>rgb[i]\<close>: \<open>undefined\<close> past the end.\<close>

definition element :: "string list \<Rightarrow> nat \<Rightarrow> jsval" where
  "element rgb i = (if i < length rgb then JStr (rgb ! i) else JUndefined)"

definition rgb_encode :: "string \<Rightarrow> error + event list \<times> jsval" where
  "rgb_encode message =
     (let rgb = split_comma message
      in case (to_number (element rgb 0), to_number (element rgb 1), to_number (element rgb 2)) of
           (Inr r, Inr g, Inr b) \<Rightarrow>
             let brightness =
                   js_round (fadd (fadd (fmul (fl (299 / 1000)) r) (fmul (fl (587 / 1000)) g))
                                  (fmul (fl (114 / 1000)) b));
                 response =
                   JObj [(''state'', JStr (if truthy (JNum brightness) then ''ON'' else ''OFF'')),
                         (''brightness'', json_num brightness),
                         (''color'', JObj [(''r'', json_num r), (''g'', json_num g),
                                           (''b'', json_num b)])]
             in Inr ([Log (''RGB encode request: '' @ message),
                      LogWire ''RGB encode response: '' response],
                     response)
         | _ \<Rightarrow> Inl Unmodelled)"

text \<open>
  \<open>cie-rgb-converter.js\<close> is not part of the sources at hand, so the decoder takes as a
  parameter \<open>conv_join x y brightness\<close>, the text \<open>conv.cie_to_rgb(x, y, brightness).join(",")\<close>.
\<close>

definition rgb_decode ::
  "(jsval \<Rightarrow> jsval \<Rightarrow> jsval \<Rightarrow> string) \<Rightarrow> jsval \<Rightarrow> event list \<times> (error + jsval)" where
  "rgb_decode conv_join msg =
     ([LogWire ''RGB decode request: '' msg],
      case get msg ''color'' of
        Inl e \<Rightarrow> Inl e
      | Inr color \<Rightarrow>
          if truthy color
          then (case get color ''x'' of
                  Inl e \<Rightarrow> Inl e
                | Inr x \<Rightarrow>
                    (case get color ''y'' of
                       Inl e \<Rightarrow> Inl e
                     | Inr y \<Rightarrow>
                         (case get msg ''brightness'' of
                            Inl e \<Rightarrow> Inl e
                          | Inr b \<Rightarrow> Inr (JStr (conv_join x y b)))))
          else Inr JUndefined)"

section \<open>The formulas of the specification\<close>

text \<open>
  The rounding of the specification's formulas, in exact arithmetic: the nearest integer,
  a tie going up.
\<close>

definition round_half_up :: "rat \<Rightarrow> int" where
  "round_half_up x = \<lfloor>x + 1 / 2\<rfloor>"

text \<open>\<open>round((v - 140) * (454-250)/(500-140) + 250)\<close>, as the specification writes it.\<close>

definition spec_color_temp :: "int \<Rightarrow> int" where
  "spec_color_temp v = round_half_up ((of_int v - 140) * (454 - 250) / (500 - 140) + 250)"


text \<open>\<open>round(v / 2.54)\<close>, as the specification writes it.\<close>

definition spec_brightness_decode :: "int \<Rightarrow> int" where
  "spec_brightness_decode b = round_half_up (of_int b / (254 / 100))"

text \<open>\<open>round(0.299*r + 0.587*g + 0.114*b)\<close>, as the specification writes it.\<close>

definition spec_luma :: "int \<Rightarrow> int \<Rightarrow> int \<Rightarrow> int" where
  "spec_luma r g b =
     round_half_up (299 / 1000 * of_int r + 587 / 1000 * of_int g + 114 / 1000 * of_int b)"

text \<open>
  The inverse rescale \<open>round((c - 250) * (500-140)/(454-250) + 140)\<close> of the decoder, in
  exact arithmetic.
\<close>

definition spec_color_temp_decode :: "int \<Rightarrow> int" where
  "spec_color_temp_decode c =
     round_half_up ((of_int c - 250) * (500 - 140) / (454 - 250) + 140)"

section \<open>Binary64 rounding\<close>

text \<open>The exponent that \<open>ilog2\<close> computes brackets its argument.\<close>

lemma quotient_bitlen:
  assumes "x \<noteq> 0" "quotient_of \<bar>x\<bar> = (p, q)"
  shows "\<bar>x\<bar> = of_int p / of_int q" and "0 < p" and "0 < q"
    and "(2::rat) powi (bitlen p - 1) \<le> of_int p" and "(of_int p :: rat) < 2 powi (bitlen p)"
    and "(2::rat) powi (bitlen q - 1) \<le> of_int q" and "(of_int q :: rat) < 2 powi (bitlen q)"
proof -
  show q0: "0 < q" using quotient_of_denom_pos[OF assms(2)] .
  show xe: "\<bar>x\<bar> = of_int p / of_int q" using quotient_of_div[OF assms(2)] .
  have "0 < \<bar>x\<bar>" using assms(1) by simp
  then have "0 < (of_int p :: rat) / of_int q" using xe by simp
  then show p0: "0 < p" using q0 by (simp add: zero_less_divide_iff)
  have bits: "(2::rat) powi (bitlen n - 1) \<le> of_int n \<and> (of_int n :: rat) < 2 powi (bitlen n)"
    if "0 < n" for n
  proof -
    have b: "1 \<le> bitlen n" using that by (simp add: bitlen_alt_def)
    have "(2::int) ^ nat (bitlen n - 1) \<le> n" "n < (2::int) ^ nat (bitlen n)"
      using bitlen_bounds[OF that] by simp_all
    then have "(of_int ((2::int) ^ nat (bitlen n - 1)) :: rat) \<le> of_int n"
        "(of_int n :: rat) < of_int ((2::int) ^ nat (bitlen n))"
      by (simp_all only: of_int_le_iff of_int_less_iff)
    then show ?thesis using b by (simp add: power_int_def)
  qed
  show "(2::rat) powi (bitlen p - 1) \<le> of_int p" "(of_int p :: rat) < 2 powi (bitlen p)"
    using bits[OF p0] by simp_all
  show "(2::rat) powi (bitlen q - 1) \<le> of_int q" "(of_int q :: rat) < 2 powi (bitlen q)"
    using bits[OF q0] by simp_all
qed

lemma ilog2_lower:
  assumes "x \<noteq> 0"
  shows "2 powi (ilog2 x) \<le> \<bar>x\<bar>"
proof -
  obtain p q where pq: "quotient_of \<bar>x\<bar> = (p, q)" by force
  note f = quotient_bitlen[OF assms pq]
  have "(2::rat) powi (bitlen p - bitlen q - 1) = 2 powi (bitlen p - 1) / 2 powi (bitlen q)"
    by (simp add: power_int_diff)
  also have "\<dots> \<le> of_int p / of_int q"
    using f(2,3,4,7) by (intro frac_le) simp_all
  finally have "(2::rat) powi (bitlen p - bitlen q - 1) \<le> \<bar>x\<bar>" using f(1) by simp
  then show ?thesis by (simp add: ilog2_def pq Let_def)
qed

lemma ilog2_upper:
  assumes "x \<noteq> 0"
  shows "\<bar>x\<bar> < 2 powi (ilog2 x + 1)"
proof -
  obtain p q where pq: "quotient_of \<bar>x\<bar> = (p, q)" by force
  note f = quotient_bitlen[OF assms pq]
  have "of_int p / of_int q < (2::rat) powi (bitlen p) / 2 powi (bitlen q - 1)"
    using f(2,3,5,6) by (intro frac_less) simp_all
  also have "\<dots> = 2 powi (bitlen p - bitlen q + 1)"
    by (simp add: power_int_diff power_int_add)
  finally have "\<bar>x\<bar> < (2::rat) powi (bitlen p - bitlen q + 1)" using f(1) by simp
  then show ?thesis by (simp add: ilog2_def pq Let_def)
qed

lemma ilog2_unique:
  assumes "2 powi e \<le> \<bar>x\<bar>" "\<bar>x\<bar> < 2 powi (e + 1)"
  shows "ilog2 x = e"
proof -
  have x0: "x \<noteq> 0"
  proof
    assume "x = 0"
    then have "(2::rat) powi e \<le> 0" using assms(1) by simp
    moreover have "(0::rat) < 2 powi e" by simp
    ultimately show False by linarith
  qed
  have "(2::rat) powi e < 2 powi (ilog2 x + 1)"
    using assms(1) ilog2_upper[OF x0] by linarith
  then have 1: "e < ilog2 x + 1"
    using power_int_increasing[of "ilog2 x + 1" e "2::rat"] by fastforce
  have "(2::rat) powi (ilog2 x) < 2 powi (e + 1)"
    using assms(2) ilog2_lower[OF x0] by linarith
  then have 2: "ilog2 x < e + 1"
    using power_int_increasing[of "e + 1" "ilog2 x" "2::rat"] by fastforce
  show ?thesis using 1 2 by simp
qed

text \<open>\<open>round_even\<close> never crosses an integer and picks the integer within a half.\<close>

lemma round_even_ge:
  assumes "of_int n \<le> r"
  shows "n \<le> round_even r"
proof -
  have "n \<le> \<lfloor>r\<rfloor>" using assms by (simp add: le_floor_iff)
  then show ?thesis by (simp add: round_even_def Let_def)
qed

lemma round_even_le:
  assumes "r \<le> of_int n"
  shows "round_even r \<le> n"
proof (cases "\<lfloor>r\<rfloor> < n")
  case True
  then show ?thesis by (simp add: round_even_def Let_def)
next
  case False
  have "\<lfloor>r\<rfloor> \<le> n" using assms by (simp add: floor_le_iff)
  then have fn: "\<lfloor>r\<rfloor> = n" using False by simp
  have "of_int \<lfloor>r\<rfloor> \<le> r" by simp
  then have "r = of_int n" using assms fn by simp
  then show ?thesis by (simp add: round_even_def Let_def)
qed

lemma round_even_near:
  assumes "\<bar>r - of_int m\<bar> < 1 / 2"
  shows "round_even r = m"
proof (cases "of_int m \<le> r")
  case True
  then have "\<lfloor>r\<rfloor> = m" using assms by (simp add: floor_unique)
  then show ?thesis using assms True by (simp add: round_even_def Let_def)
next
  case False
  then have "\<lfloor>r\<rfloor> = m - 1" using assms by (intro floor_unique) simp_all
  then show ?thesis using assms False by (simp add: round_even_def Let_def)
qed

text \<open>
  The rounded value stays between any two bounds that lie on a grid \<open>2 ^ k\<close> no finer than
  the spacing of binary64 at \<open>x\<close>; in particular an exact result on such a grid is
  returned as it is.
\<close>

lemma fl_bracket:
  assumes a: "a = of_int m * 2 powi k" and b: "b = of_int n * 2 powi k"
    and m: "\<bar>m\<bar> < 2 ^ 53" and n: "\<bar>n\<bar> < 2 ^ 53"
    and k: "- 1074 \<le> k" "k \<le> 970"
    and ax: "a \<le> x" and xb: "x \<le> b"
  shows "\<exists>y. fl x = Fin y \<and> a \<le> y \<and> y \<le> b"
proof (cases "x = 0")
  case True
  then show ?thesis using ax xb by (simp add: fl_def)
next
  case False
  define E where "E = max (ilog2 x) (- 1022)"
  define q :: rat where "q = 2 powi (E - 52)"
  define y where "y = of_int (round_even (x / q)) * q"
  have q0: "0 < q" by (simp add: q_def)
  have big: "(2::rat) powi (k + 53) = 2 ^ 53 * 2 powi k"
    by (simp add: power_int_add)
  have k0: "(0::rat) < 2 powi k" by simp
  have absa: "\<bar>a\<bar> < 2 powi (k + 53)"
  proof -
    have "\<bar>a\<bar> = of_int \<bar>m\<bar> * 2 powi k" using a by (simp add: abs_mult)
    moreover have "(of_int \<bar>m\<bar> :: rat) < 2 ^ 53"
      using m by (metis of_int_less_iff of_int_numeral of_int_power)
    ultimately show ?thesis using k0 by (simp add: big)
  qed
  have absb: "\<bar>b\<bar> < 2 powi (k + 53)"
  proof -
    have "\<bar>b\<bar> = of_int \<bar>n\<bar> * 2 powi k" using b by (simp add: abs_mult)
    moreover have "(of_int \<bar>n\<bar> :: rat) < 2 ^ 53"
      using n by (metis of_int_less_iff of_int_numeral of_int_power)
    ultimately show ?thesis using k0 by (simp add: big)
  qed
  have absx: "\<bar>x\<bar> < 2 powi (k + 53)" using ax xb absa absb by linarith
  have "(2::rat) powi (ilog2 x) < 2 powi (k + 53)"
    using ilog2_lower[OF False] absx by linarith
  then have "ilog2 x < k + 53"
    using power_int_increasing[of "k + 53" "ilog2 x" "2::rat"] by fastforce
  then have Ek: "E - 52 \<le> k" using k by (simp add: E_def)
  define t where "t = nat (k - (E - 52))"
  have kq: "(2::rat) powi k = 2 ^ t * q"
  proof -
    have "k = int t + (E - 52)" using Ek by (simp add: t_def)
    then have "(2::rat) powi k = 2 powi (int t + (E - 52))" by simp
    also have "\<dots> = 2 powi (int t) * 2 powi (E - 52)" by (simp add: power_int_add)
    finally show ?thesis by (simp add: q_def)
  qed
  have aq: "a = of_int (m * 2 ^ t) * q" using a kq by simp
  have bq: "b = of_int (n * 2 ^ t) * q" using b kq by simp
  have "of_int (m * 2 ^ t) \<le> x / q" using ax aq q0 by (simp add: pos_le_divide_eq)
  then have "m * 2 ^ t \<le> round_even (x / q)" by (rule round_even_ge)
  then have "(of_int (m * 2 ^ t) :: rat) \<le> of_int (round_even (x / q))"
    by (simp only: of_int_le_iff)
  then have ay: "a \<le> y" using q0 unfolding aq y_def by (simp only: mult_le_cancel_right_pos)
  have "x / q \<le> of_int (n * 2 ^ t)" using xb bq q0 by (simp add: pos_divide_le_eq)
  then have "round_even (x / q) \<le> n * 2 ^ t" by (rule round_even_le)
  then have "(of_int (round_even (x / q)) :: rat) \<le> of_int (n * 2 ^ t)"
    by (simp only: of_int_le_iff)
  then have yb: "y \<le> b" using q0 unfolding bq y_def by (simp only: mult_le_cancel_right_pos)
  have "(2::rat) powi (k + 53) \<le> 2 powi 1024"
    using k by (intro power_int_increasing) simp_all
  then have lim: "(2::rat) powi (k + 53) \<le> 2 ^ 1024" by simp
  have "y < 2 ^ 1024" "- (2 ^ 1024) < y" using ay yb absa absb lim by linarith+
  then have "fl x = Fin y"
    using False by (simp add: fl_def Let_def E_def[symmetric] q_def[symmetric] y_def[symmetric])
  then show ?thesis using ay yb by blast
qed

lemma fl_int:
  assumes "\<bar>n\<bar> < 2 ^ 53"
  shows "fl (of_int n) = Fin (of_int n)"
proof -
  have "\<exists>y. fl (of_int n) = Fin y \<and> of_int n \<le> y \<and> y \<le> of_int n"
    using assms by (intro fl_bracket[where m = n and n = n and k = 0]) simp_all
  then show ?thesis by auto
qed

lemma fl_bracket_1024:
  assumes "of_int m / 1024 \<le> x" "x \<le> of_int n / 1024" "\<bar>m\<bar> < 2 ^ 53" "\<bar>n\<bar> < 2 ^ 53"
  shows "\<exists>y. fl x = Fin y \<and> of_int m / 1024 \<le> y \<and> y \<le> of_int n / 1024"
  using assms
  by (intro fl_bracket[where m = m and n = n and k = "- 10"]) (simp_all add: power_int_minus)

text \<open>Up to \<open>2 ^ 38\<close> in magnitude, rounding moves a value by at most \<open>2 ^ -14\<close>.\<close>

lemma floor_ceiling_bounds:
  fixes t :: rat and z :: int
  assumes "\<bar>t\<bar> \<le> of_int z"
  shows "- z \<le> \<lfloor>t\<rfloor>" and "\<lfloor>t\<rfloor> \<le> z" and "- z \<le> \<lceil>t\<rceil>" and "\<lceil>t\<rceil> \<le> z"
    and "\<lceil>t\<rceil> \<le> \<lfloor>t\<rfloor> + 1"
proof -
  have t: "of_int (- z) \<le> t" "t \<le> of_int z" using assms by (simp_all add: abs_le_iff)
  show "- z \<le> \<lfloor>t\<rfloor>" using t(1) by (simp only: le_floor_iff)
  have "of_int \<lfloor>t\<rfloor> \<le> t" by simp
  then have "(of_int \<lfloor>t\<rfloor> :: rat) \<le> of_int z" using t(2) by linarith
  then show "\<lfloor>t\<rfloor> \<le> z" by (simp only: of_int_le_iff)
  show "\<lceil>t\<rceil> \<le> z" using t(2) by (simp only: ceiling_le_iff)
  have "t \<le> of_int \<lceil>t\<rceil>" by simp
  then have "(of_int (- z) :: rat) \<le> of_int \<lceil>t\<rceil>" using t(1) by linarith
  then show "- z \<le> \<lceil>t\<rceil>" by (simp only: of_int_le_iff)
  have "t \<le> of_int (\<lfloor>t\<rfloor> + 1)" using floor_correct[of t] by simp
  then show "\<lceil>t\<rceil> \<le> \<lfloor>t\<rfloor> + 1" by (simp only: ceiling_le_iff)
qed

lemma fl_close:
  assumes "\<bar>x\<bar> \<le> 2 ^ 38"
  shows "\<exists>y. fl x = Fin y \<and> \<bar>y - x\<bar> \<le> 1 / 16384"
proof -
  define t where "t = x * 16384"
  define m where "m = \<lfloor>t\<rfloor>"
  define n where "n = \<lceil>t\<rceil>"
  have "\<bar>x\<bar> \<le> 274877906944" using assms by simp
  then have "\<bar>t\<bar> \<le> 4503599627370496" unfolding t_def by (simp add: abs_mult)
  then have s: "\<bar>t\<bar> \<le> of_int 4503599627370496" by simp
  have fc: "- 4503599627370496 \<le> m" "m \<le> 4503599627370496" "- 4503599627370496 \<le> n"
      "n \<le> 4503599627370496" "n \<le> m + 1"
    unfolding m_def n_def using floor_ceiling_bounds[OF s] by blast+
  have mb: "\<bar>m\<bar> < 9007199254740992" and nb: "\<bar>n\<bar> < 9007199254740992"
    using fc by linarith+
  have p: "(2::rat) powi (- 14) = 1 / 16384" by (simp add: power_int_minus)
  have "of_int m \<le> t" "t \<le> of_int n" unfolding m_def n_def by simp_all
  then have lo: "of_int m * (1 / 16384) \<le> x" and hi: "x \<le> of_int n * (1 / 16384)"
    unfolding t_def by simp_all
  have "(of_int n :: rat) \<le> of_int (m + 1)" using fc(5) by (simp only: of_int_le_iff)
  then have w: "of_int n * (1 / 16384) - of_int m * (1 / 16384) \<le> (1 / 16384 :: rat)"
    by simp
  have "\<exists>y. fl x = Fin y \<and> of_int m * (1 / 16384) \<le> y \<and> y \<le> of_int n * (1 / 16384)"
    using lo hi mb nb
    by (intro fl_bracket[where m = m and n = n and k = "- 14"]) (simp_all add: p)
  then obtain y where y: "fl x = Fin y" "of_int m * (1 / 16384) \<le> y" "y \<le> of_int n * (1 / 16384)"
    by blast
  have "\<bar>y - x\<bar> \<le> 1 / 16384" using y(2,3) lo hi w by linarith
  then show ?thesis using y(1) by blast
qed

lemma fl_close_between:
  assumes "- 274877906944 \<le> x" "x \<le> 274877906944"
  shows "\<exists>y. fl x = Fin y \<and> x - 1 / 16384 \<le> y \<and> y \<le> x + 1 / 16384"
proof -
  have "\<bar>x\<bar> \<le> 2 ^ 38" using assms by (simp add: abs_le_iff)
  then obtain y where y: "fl x = Fin y" "\<bar>y - x\<bar> \<le> 1 / 16384" using fl_close by blast
  have "x - 1 / 16384 \<le> y" "y \<le> x + 1 / 16384" using y(2) by linarith+
  then show ?thesis using y(1) by blast
qed

text \<open>
  Rounding is odd and monotone, and so are the operators with a finite second operand
  (a positive one for \<open>*\<close> and \<open>/\<close>) and \<open>Math.round\<close>.
\<close>

lemma round_even_mono:
  assumes "r \<le> s"
  shows "round_even r \<le> round_even s"
proof (cases "\<lfloor>r\<rfloor> < \<lfloor>s\<rfloor>")
  case True
  have "r \<le> of_int (\<lfloor>r\<rfloor> + 1)" using floor_correct[of r] by simp
  then have "round_even r \<le> \<lfloor>r\<rfloor> + 1" by (rule round_even_le)
  moreover have "\<lfloor>s\<rfloor> \<le> round_even s" by (rule round_even_ge) simp
  ultimately show ?thesis using True by linarith
next
  case False
  then have "\<lfloor>r\<rfloor> = \<lfloor>s\<rfloor>" using floor_mono[OF assms] by linarith
  then show ?thesis using assms by (simp add: round_even_def Let_def)
qed

lemma round_even_minus: "round_even (- r) = - round_even r"
proof (cases "r = of_int \<lfloor>r\<rfloor>")
  case True
  then obtain n where "r = of_int n" ..
  then show ?thesis by (simp add: round_even_def Let_def del: of_int_minus add: of_int_minus[symmetric])
next
  case False
  then have f: "\<lfloor>- r\<rfloor> = - \<lfloor>r\<rfloor> - 1"
    by (intro floor_unique) (use False floor_correct[of r] in \<open>auto simp: less_le\<close>)
  show ?thesis
    unfolding round_even_def Let_def f by (auto simp: field_simps)
qed

lemma ilog2_minus: "ilog2 (- x) = ilog2 x"
  by (simp add: ilog2_def)

lemma fl_minus: "fl (- x) = fneg (fl x)"
proof (cases "x = 0")
  case True
  then show ?thesis by (simp add: fl_def)
next
  case False
  define q :: rat where "q = 2 powi (max (ilog2 x) (- 1022) - 52)"
  define y where "y = of_int (round_even (x / q)) * q"
  have "of_int (round_even (- x / q)) * q = - y"
    using round_even_minus[of "x / q"] by (simp add: y_def)
  then show ?thesis
    using False
    by (simp add: fl_def ilog2_minus Let_def q_def[symmetric] y_def[symmetric] not_le)
qed

lemma fl_nonneg:
  assumes "0 \<le> x"
  shows "num_le (Fin 0) (fl x)"
proof (cases "x = 0")
  case True
  then show ?thesis by (simp add: fl_def)
next
  case False
  define q :: rat where "q = 2 powi (max (ilog2 x) (- 1022) - 52)"
  define y where "y = of_int (round_even (x / q)) * q"
  have q0: "0 < q" by (simp add: q_def)
  have "of_int 0 \<le> x / q" using assms q0 by simp
  then have "0 \<le> round_even (x / q)" by (rule round_even_ge)
  then have y0: "0 \<le> y" using q0 by (simp add: y_def)
  have "\<not> y \<le> - (2 ^ 1024)" using y0 by (simp add: not_le)
  then show ?thesis
    using False y0
    by (simp add: fl_def Let_def q_def[symmetric] y_def[symmetric])
qed

lemma fl_mono_pos:
  assumes "0 < x" "x \<le> y"
  shows "num_le (fl x) (fl y)"
proof -
  define Ex where "Ex = max (ilog2 x) (- 1022)"
  define qx :: rat where "qx = 2 powi (Ex - 52)"
  define yx where "yx = of_int (round_even (x / qx)) * qx"
  define Ey where "Ey = max (ilog2 y) (- 1022)"
  define qy :: rat where "qy = 2 powi (Ey - 52)"
  define yy where "yy = of_int (round_even (y / qy)) * qy"
  have x0: "x \<noteq> 0" and y0: "y \<noteq> 0" and ypos: "0 < y" using assms by simp_all
  have qx0: "0 < qx" and qy0: "0 < qy" by (simp_all add: qx_def qy_def)
  have "(2::rat) powi (ilog2 x) < 2 powi (ilog2 y + 1)"
    using ilog2_lower[OF x0] ilog2_upper[OF y0] assms by linarith
  then have "ilog2 x < ilog2 y + 1"
    using power_int_increasing[of "ilog2 y + 1" "ilog2 x" "2::rat"] by fastforce
  then have E: "Ex \<le> Ey" by (simp add: Ex_def Ey_def)
  have le: "yx \<le> yy"
  proof (cases "Ex = Ey")
    case True
    then have q: "qx = qy" by (simp add: qx_def qy_def)
    have "x / qy \<le> y / qy" using assms(2) qy0 by (simp add: divide_right_mono)
    then have "round_even (x / qy) \<le> round_even (y / qy)" by (rule round_even_mono)
    then have "(of_int (round_even (x / qy)) :: rat) \<le> of_int (round_even (y / qy))"
      by (simp only: of_int_le_iff)
    then show ?thesis using qy0 unfolding yx_def yy_def q by (simp only: mult_le_cancel_right_pos)
  next
    case False
    then have lt: "Ex + 1 \<le> Ey" using E by simp
    then have Eyy: "Ey = ilog2 y" by (simp add: Ey_def Ex_def)
    have "ilog2 x + 1 \<le> Ex + 1" by (simp add: Ex_def)
    then have "(2::rat) powi (ilog2 x + 1) \<le> 2 powi (Ex + 1)"
      by (intro power_int_increasing) simp_all
    then have "x < 2 powi (Ex + 1)" using ilog2_upper[OF x0] assms(1) by simp
    also have "(2::rat) powi (Ex + 1) = 2 ^ 53 * qx"
      by (simp add: qx_def power_int_add power_int_diff)
    finally have "x / qx \<le> of_int (2 ^ 53)" using qx0 by (simp add: pos_divide_le_eq)
    then have "round_even (x / qx) \<le> 2 ^ 53" by (rule round_even_le)
    then have "(of_int (round_even (x / qx)) :: rat) \<le> of_int (2 ^ 53)"
      by (simp only: of_int_le_iff)
    then have "yx \<le> of_int (2 ^ 53) * qx"
      using qx0 unfolding yx_def by (simp only: mult_le_cancel_right_pos)
    also have "\<dots> = 2 powi (Ex + 1)" by (simp add: qx_def power_int_add power_int_diff)
    also have "\<dots> \<le> 2 powi Ey" using lt by (intro power_int_increasing) simp_all
    finally have 1: "yx \<le> 2 powi Ey" .
    have p: "(2::rat) powi Ey = 2 ^ 52 * qy" by (simp add: qy_def power_int_add power_int_diff)
    have "(2::rat) powi Ey \<le> y" using ilog2_lower[OF y0] ypos by (simp add: Eyy)
    then have "of_int (2 ^ 52) \<le> y / qy" using qy0 by (simp add: p pos_le_divide_eq)
    then have "2 ^ 52 \<le> round_even (y / qy)" by (rule round_even_ge)
    then have "(of_int (2 ^ 52) :: rat) \<le> of_int (round_even (y / qy))"
      by (simp only: of_int_le_iff)
    then have "of_int (2 ^ 52) * qy \<le> yy"
      using qy0 unfolding yy_def by (simp only: mult_le_cancel_right_pos)
    then have 2: "2 powi Ey \<le> yy" by (simp add: p)
    show ?thesis using 1 2 by linarith
  qed
  have "of_int 0 \<le> x / qx" using assms(1) qx0 by simp
  then have "0 \<le> round_even (x / qx)" by (rule round_even_ge)
  then have yx0: "0 \<le> yx" using qx0 by (simp add: yx_def)
  have big: "(0::rat) < 2 ^ 1024" by simp
  have fx: "fl x = (if 2 ^ 1024 \<le> yx then PInf else Fin yx)"
    using x0 yx0 big
    by (simp add: fl_def Let_def Ex_def[symmetric] qx_def[symmetric] yx_def[symmetric] del: zero_less_power)
  have fy: "fl y = (if 2 ^ 1024 \<le> yy then PInf else Fin yy)"
    using y0 yx0 le big
    by (simp add: fl_def Let_def Ey_def[symmetric] qy_def[symmetric] yy_def[symmetric] del: zero_less_power)
  show ?thesis unfolding fx fy using le by (simp del: power_numeral)
qed

lemma num_le_trans: "num_le a b \<Longrightarrow> num_le b c \<Longrightarrow> num_le a c"
  by (cases a; cases b; cases c) simp_all

lemma num_le_fneg: "num_le (fneg a) (fneg b) = num_le b a"
  by (cases a; cases b) simp_all

lemma fl_not_NaN: "fl x \<noteq> NaN"
  by (simp add: fl_def Let_def)

lemma num_le_PInf: "num_le n PInf = (n \<noteq> NaN)"
  by (cases n) simp_all

lemma num_le_NInf: "num_le NInf n = (n \<noteq> NaN)"
  by (cases n) simp_all

lemma fl_mono:
  assumes "x \<le> y"
  shows "num_le (fl x) (fl y)"
proof (cases "0 < x")
  case True
  then show ?thesis using assms by (rule fl_mono_pos)
next
  case x: False
  show ?thesis
  proof (cases "0 \<le> y")
    case True
    have "num_le (Fin 0) (fl (- x))" using x by (intro fl_nonneg) simp
    then have "num_le (fneg (Fin 0)) (fneg (fl x)) " by (simp add: fl_minus)
    then have "num_le (fl x) (Fin 0)" by (simp only: num_le_fneg)
    then show ?thesis using fl_nonneg[OF True] by (rule num_le_trans)
  next
    case False
    then have "num_le (fl (- y)) (fl (- x))" using assms by (intro fl_mono_pos) simp_all
    then show ?thesis by (simp only: fl_minus num_le_fneg)
  qed
qed

lemma fadd_mono:
  assumes "num_le a b"
  shows "num_le (fadd a (Fin c)) (fadd b (Fin c))"
  using assms
  by (cases a; cases b) (simp_all add: fl_mono num_le_PInf num_le_NInf fl_not_NaN)

lemma fmul_mono:
  assumes "num_le a b" "0 < c"
  shows "num_le (fmul a (Fin c)) (fmul b (Fin c))"
  using assms
  by (cases a; cases b)
     (simp_all add: fl_mono num_le_PInf num_le_NInf fl_not_NaN signed_inf_def)

lemma fdiv_mono:
  assumes "num_le a b" "0 < c"
  shows "num_le (fdiv a (Fin c)) (fdiv b (Fin c))"
  using assms
  by (cases a; cases b)
     (simp_all add: fl_mono num_le_PInf num_le_NInf fl_not_NaN signed_inf_def divide_right_mono)

lemma js_round_mono:
  assumes "num_le a b"
  shows "num_le (js_round a) (js_round b)"
  using assms by (cases a; cases b) (simp_all add: floor_mono)

text \<open>
  \<open>Math.round\<close> of a rounded result is the integer \<open>K\<close> as soon as the exact result keeps
  a distance of \<open>1/1024\<close> from the next tie above.
\<close>

lemma round_fl:
  assumes lo: "of_int K - 1 / 2 \<le> x" and hi: "x \<le> of_int K + 1 / 2 - 1 / 1024"
    and K: "\<bar>K\<bar> < 2 ^ 42"
  shows "js_round (fl x) = Fin (of_int K)"
proof -
  have "\<exists>y. fl x = Fin y \<and> of_int (1024 * K - 512) / 1024 \<le> y
          \<and> y \<le> of_int (1024 * K + 511) / 1024"
    using lo hi K by (intro fl_bracket_1024) (simp_all add: field_simps)
  then obtain y where y: "fl x = Fin y" "of_int K - 1 / 2 \<le> y" "y \<le> of_int K + 1 / 2 - 1 / 1024"
    by (auto simp: field_simps)
  have "\<lfloor>y + 1 / 2\<rfloor> = K" using y(2,3) by (intro floor_unique) simp_all
  then show ?thesis using y(1) by simp
qed

text \<open>The value of a rounded result, from its binade and the nearest multiple of the spacing.\<close>

lemma fl_near:
  assumes "2 powi e \<le> \<bar>x\<bar>" "\<bar>x\<bar> < 2 powi (e + 1)" "- 1022 \<le> e" "e \<le> 1022"
    and "\<bar>x / 2 powi (e - 52) - of_int m\<bar> < 1 / 2"
  shows "fl x = Fin (of_int m * 2 powi (e - 52))"
proof -
  have x0: "x \<noteq> 0"
  proof
    assume "x = 0"
    then have "(2::rat) powi e \<le> 0" using assms(1) by simp
    moreover have "(0::rat) < 2 powi e" by simp
    ultimately show False by linarith
  qed
  define E where "E = max (ilog2 x) (- 1022)"
  define q :: rat where "q = 2 powi (E - 52)"
  define y where "y = of_int (round_even (x / q)) * q"
  have "ilog2 x = e" using assms(1,2) by (rule ilog2_unique)
  then have Ee: "E = e" using assms(3) by (simp add: E_def)
  have q0: "0 < q" by (simp add: q_def)
  have near: "\<bar>x / q - of_int m\<bar> < 1 / 2" using assms(5) by (simp add: q_def Ee)
  then have "round_even (x / q) = m" by (rule round_even_near)
  then have ym: "y = of_int m * q" by (simp add: y_def)
  have "\<bar>x / q\<bar> < 2 ^ 53"
  proof -
    have "(2::rat) powi (e + 1) = 2 ^ 53 * q"
      by (simp add: q_def Ee power_int_add power_int_diff)
    then have "\<bar>x\<bar> < 2 ^ 53 * q" using assms(2) by simp
    then show ?thesis using q0 by (simp add: abs_divide pos_divide_less_eq)
  qed
  moreover have "(2::rat) ^ 54 = 2 ^ 53 + 2 ^ 53" "(1::rat) / 2 < 2 ^ 53" by simp_all
  ultimately have "\<bar>(of_int m :: rat)\<bar> < 2 ^ 54"
    using near by linarith
  then have "\<bar>of_int m * q\<bar> < 2 ^ 54 * q" using q0 by (simp add: abs_mult)
  also have "\<dots> = 2 powi (e + 2)" by (simp add: q_def Ee power_int_add power_int_diff)
  also have "\<dots> \<le> 2 powi 1024" using assms(4) by (intro power_int_increasing) simp_all
  also have "\<dots> = 2 ^ 1024" by simp
  finally have "\<bar>y\<bar> < 2 ^ 1024" by (simp only: ym)
  then have "y < 2 ^ 1024" "- (2 ^ 1024) < y" by linarith+
  then have "fl x = Fin y"
    using x0 by (simp add: fl_def Let_def E_def[symmetric] q_def[symmetric] y_def[symmetric])
  then show ?thesis by (simp only: ym q_def Ee)
qed

text \<open>The literals \<open>2.54\<close>, \<open>0.299\<close>, \<open>0.587\<close> and \<open>0.114\<close>, and the two ranges.\<close>

lemma c254: "fl (254 / 100) = Fin (2859785763380265 / 1125899906842624)"
proof -
  have "fl (254 / 100) = Fin (of_int 5719571526760530 * 2 powi (1 - 52))"
    by (rule fl_near) (simp_all add: power_int_minus)
  then show ?thesis by (simp add: power_int_minus)
qed

lemma c299: "fl (299 / 1000) = Fin (5386305154335113 / 18014398509481984)"
proof -
  have "fl (299 / 1000) = Fin (of_int 5386305154335113 * 2 powi (- 2 - 52))"
    by (rule fl_near) (simp_all add: power_int_minus)
  then show ?thesis by (simp add: power_int_minus)
qed

lemma c587: "fl (587 / 1000) = Fin (2643612981266481 / 4503599627370496)"
proof -
  have "fl (587 / 1000) = Fin (of_int 5287225962532962 * 2 powi (- 1 - 52))"
    by (rule fl_near) (simp_all add: power_int_minus)
  then show ?thesis by (simp add: power_int_minus)
qed

lemma c114: "fl (114 / 1000) = Fin (8214565720323785 / 72057594037927936)"
proof -
  have "fl (114 / 1000) = Fin (of_int 8214565720323785 * 2 powi (- 4 - 52))"
    by (rule fl_near) (simp_all add: power_int_minus)
  then show ?thesis by (simp add: power_int_minus)
qed

lemma ikeaRange_eq: "ikeaRange = Fin 204"
  using fl_int[of 204] by (simp add: ikeaRange_def ikeaMax_def ikeaMin_def fsub_def)

lemma zigbeeRange_eq: "zigbeeRange = Fin 360"
  using fl_int[of 360] by (simp add: zigbeeRange_def zigbeeMax_def zigbeeMin_def fsub_def)

section \<open>The numbers the codecs compute\<close>

text \<open>
  On integers of magnitude up to \<open>2 ^ 40\<close> every intermediate product is exact and each
  division lands far enough from a tie, so the binary64 results are the exactly rounded
  quotients.
\<close>

lemma div_bounds_rat:
  fixes s K :: int
  assumes "K = s div d" "0 < d"
  shows "of_int d * (of_int K :: rat) \<le> of_int s"
    and "(of_int s :: rat) \<le> of_int d * of_int K + of_int d - 1"
proof -
  have e: "s = d * K + s mod d" using assms by simp
  have "0 \<le> s mod d" "s mod d < d" using assms by simp_all
  then have "d * K \<le> s" "s \<le> d * K + d - 1" using e by linarith+
  then have "(of_int (d * K) :: rat) \<le> of_int s" "(of_int s :: rat) \<le> of_int (d * K + d - 1)"
    by (simp_all only: of_int_le_iff)
  then show "of_int d * (of_int K :: rat) \<le> of_int s"
    and "(of_int s :: rat) \<le> of_int d * of_int K + of_int d - 1" by simp_all
qed

lemma int_bound_rat:
  fixes n :: int
  assumes "\<bar>n\<bar> \<le> 2 ^ 40"
  shows "- 1099511627776 \<le> (of_int n :: rat)" and "(of_int n :: rat) \<le> 1099511627776"
proof -
  have "- 1099511627776 \<le> n" "n \<le> 1099511627776" using assms by simp_all
  then show "- 1099511627776 \<le> (of_int n :: rat)" and "(of_int n :: rat) \<le> 1099511627776"
    by simp_all
qed

lemma colorTemp_encode_value:
  fixes v :: int
  assumes v: "\<bar>v\<bar> \<le> 2 ^ 40"
  defines "K \<equiv> (17 * v + 5135) div 30"
  shows "js_round (fadd (fdiv (fmul (fsub (Fin (of_int v)) zigbeeMin) ikeaRange) zigbeeRange) ikeaMin)
         = Fin (of_int K)"
proof -
  have K1: "30 * (of_int K :: rat) \<le> 17 * of_int v + 5135"
    and K2: "17 * (of_int v :: rat) + 5135 \<le> 30 * of_int K + 29"
    using div_bounds_rat[of K "17 * v + 5135" 30] by (simp_all add: K_def)
  have Kb: "\<bar>K\<bar> < 2 ^ 41" using v unfolding K_def by (simp add: abs_less_iff abs_le_iff) linarith
  have s1: "fsub (Fin (of_int v)) zigbeeMin = Fin (of_int (v - 140))"
    using v fl_int[of "v - 140"] by (simp add: fsub_def zigbeeMin_def)
  have s2: "fmul (Fin (of_int (v - 140))) ikeaRange = Fin (of_int ((v - 140) * 204))"
    using v fl_int[of "(v - 140) * 204"] by (simp add: ikeaRange_eq)
  have "\<exists>y. fl (of_int ((v - 140) * 204) / 360) = Fin y
          \<and> of_int (1024 * (K - 250) - 512) / 1024 \<le> y
          \<and> y \<le> of_int (1024 * (K - 250) + 511) / 1024"
    using K1 K2 Kb by (intro fl_bracket_1024) (simp_all add: field_simps)
  then obtain y where y: "fl (of_int ((v - 140) * 204) / 360) = Fin y"
      "of_int K - 250 - 1 / 2 \<le> y" "y \<le> of_int K - 250 + 1 / 2 - 1 / 1024"
    by (auto simp: field_simps)
  have s3: "fdiv (Fin (of_int ((v - 140) * 204))) zigbeeRange = Fin y"
    using y(1) by (simp add: zigbeeRange_eq)
  have s4: "js_round (fadd (Fin y) ikeaMin) = Fin (of_int K)"
    using y(2,3) Kb round_fl[of K "y + 250"] by (simp add: ikeaMin_def)
  show ?thesis by (simp only: s1 s2 s3 s4)
qed

lemma colorTemp_decode_value:
  fixes c :: int
  assumes c: "\<bar>c\<bar> \<le> 2 ^ 40"
  defines "R \<equiv> (60 * c - 10223) div 34"
  shows "js_round (fadd (fdiv (fmul (fsub (Fin (of_int c)) ikeaMin) zigbeeRange) ikeaRange) zigbeeMin)
         = Fin (of_int R)"
proof -
  have R1: "34 * (of_int R :: rat) \<le> 60 * of_int c - 10223"
    and R2: "60 * (of_int c :: rat) - 10223 \<le> 34 * of_int R + 33"
    using div_bounds_rat[of R "60 * c - 10223" 34] by (simp_all add: R_def)
  have Rb: "\<bar>R\<bar> < 2 ^ 42" using c unfolding R_def by (simp add: abs_less_iff abs_le_iff) linarith
  have s1: "fsub (Fin (of_int c)) ikeaMin = Fin (of_int (c - 250))"
    using c fl_int[of "c - 250"] by (simp add: fsub_def ikeaMin_def)
  have s2: "fmul (Fin (of_int (c - 250))) zigbeeRange = Fin (of_int ((c - 250) * 360))"
    using c fl_int[of "(c - 250) * 360"] by (simp add: zigbeeRange_eq)
  have "\<exists>y. fl (of_int ((c - 250) * 360) / 204) = Fin y
          \<and> of_int (1024 * (R - 140) - 512) / 1024 \<le> y
          \<and> y \<le> of_int (1024 * (R - 140) + 511) / 1024"
    using R1 R2 Rb by (intro fl_bracket_1024) (simp_all add: field_simps)
  then obtain y where y: "fl (of_int ((c - 250) * 360) / 204) = Fin y"
      "of_int R - 140 - 1 / 2 \<le> y" "y \<le> of_int R - 140 + 1 / 2 - 1 / 1024"
    by (auto simp: field_simps)
  have s3: "fdiv (Fin (of_int ((c - 250) * 360))) ikeaRange = Fin y"
    using y(1) by (simp add: ikeaRange_eq)
  have s4: "js_round (fadd (Fin y) zigbeeMin) = Fin (of_int R)"
    using y(2,3) Rb round_fl[of R "y + 140"] by (simp add: zigbeeMin_def)
  show ?thesis by (simp only: s1 s2 s3 s4)
qed

lemma brightness_encode_arith:
  fixes K v :: rat
  assumes K1: "100 * K \<le> 254 * v + 50"
    and K2: "254 * v + 50 \<le> 100 * K + 99"
    and vr: "0 \<le> v" "v \<le> 1099511627776"
  shows "K - 1 / 2 \<le> v * (2859785763380265 / 1125899906842624)"
    and "v * (2859785763380265 / 1125899906842624) \<le> K + 1 / 2 - 1 / 1024"
  using assms by linarith+

lemma brightness_decode_arith:
  fixes R b :: rat
  assumes R1: "254 * R + 1 \<le> 100 * b + 127"
    and R2: "100 * b + 127 \<le> 254 * R + 253"
    and br: "- 1099511627776 \<le> b" "b \<le> 1099511627776"
  shows "(R - 1 / 2) * (2859785763380265 / 1125899906842624) \<le> b"
    and "b \<le> (R + 1 / 2 - 1 / 1024) * (2859785763380265 / 1125899906842624)"
  using assms by (simp_all add: algebra_simps)

lemma even_neq_odd_254:
  fixes R b :: int
  shows "254 * R \<noteq> 100 * b + 127"
proof
  assume "254 * R = 100 * b + 127"
  moreover have "even (254 * R)" by simp
  moreover have "odd (100 * b + 127)" by simp
  ultimately show False by simp
qed

lemma brightness_encode_value:
  fixes v :: int
  assumes v: "0 \<le> v" "v \<le> 2 ^ 40"
  defines "K \<equiv> (254 * v + 50) div 100"
  shows "js_round (fmul (Fin (of_int v)) (fl (254 / 100))) = Fin (of_int K)"
proof -
  have K1: "100 * (of_int K :: rat) \<le> 254 * of_int v + 50"
    and K2: "254 * (of_int v :: rat) + 50 \<le> 100 * of_int K + 99"
    using div_bounds_rat[of K "254 * v + 50" 100] by (simp_all add: K_def)
  have vr: "(0::rat) \<le> of_int v" "(of_int v :: rat) \<le> 1099511627776"
    using v int_bound_rat[of v] by simp_all
  have "0 \<le> K" "K \<le> 3 * v + 1" using v unfolding K_def by linarith+
  then have Kb: "\<bar>K\<bar> < 2 ^ 42" using v by simp
  have "js_round (fl (of_int v * (2859785763380265 / 1125899906842624))) = Fin (of_int K)"
    using brightness_encode_arith[OF K1 K2 vr] Kb by (intro round_fl)
  then show ?thesis unfolding c254 by simp
qed

lemma brightness_decode_value:
  fixes b :: int
  assumes b: "\<bar>b\<bar> \<le> 2 ^ 40"
  defines "R \<equiv> (100 * b + 127) div 254"
  shows "js_round (fdiv (Fin (of_int b)) (fl (254 / 100))) = Fin (of_int R)"
proof -
  have e: "100 * b + 127 = 254 * R + (100 * b + 127) mod 254" by (simp add: R_def)
  have "0 \<le> (100 * b + 127) mod 254" "(100 * b + 127) mod 254 < 254" by simp_all
  then have i1: "254 * R \<le> 100 * b + 127" "100 * b + 127 \<le> 254 * R + 253"
    using e by linarith+
  then have "254 * R + 1 \<le> 100 * b + 127" using even_neq_odd_254[of R b] by linarith
  then have "(of_int (254 * R + 1) :: rat) \<le> of_int (100 * b + 127)" by (simp only: of_int_le_iff)
  then have R1: "254 * (of_int R :: rat) + 1 \<le> 100 * of_int b + 127" by simp
  have "(of_int (100 * b + 127) :: rat) \<le> of_int (254 * R + 253)"
    using i1(2) by (simp only: of_int_le_iff)
  then have R2: "100 * (of_int b :: rat) + 127 \<le> 254 * of_int R + 253" by simp
  have Rb: "\<bar>R\<bar> < 2 ^ 42" using b i1 by (simp add: abs_less_iff abs_le_iff)
  have c0: "(0::rat) < 2859785763380265 / 1125899906842624" by simp
  have "of_int R - 1 / 2 \<le> of_int b / (2859785763380265 / 1125899906842624 :: rat)"
    using brightness_decode_arith(1)[OF R1 R2 int_bound_rat[OF b]]
    by (simp only: pos_le_divide_eq[OF c0])
  moreover have "of_int b / (2859785763380265 / 1125899906842624 :: rat)
                   \<le> of_int R + 1 / 2 - 1 / 1024"
    using brightness_decode_arith(2)[OF R1 R2 int_bound_rat[OF b]]
    by (simp only: pos_divide_le_eq[OF c0])
  ultimately have "js_round (fl (of_int b / (2859785763380265 / 1125899906842624))) = Fin (of_int R)"
    using Rb by (intro round_fl)
  then show ?thesis unfolding c254 by simp
qed

lemma spec_color_temp_div: "spec_color_temp v = (17 * v + 5135) div 30"
proof -
  have "(of_int v - 140) * (454 - 250) / (500 - 140) + 250 + 1 / 2
        = (of_int (17 * v + 5135) :: rat) / of_int 30"
    by (simp add: field_simps)
  then show ?thesis
    unfolding spec_color_temp_def round_half_up_def by (simp only: floor_divide_of_int_eq)
qed

lemma spec_brightness_decode_div: "spec_brightness_decode b = (100 * b + 127) div 254"
proof -
  have "of_int b / (254 / 100) + 1 / 2 = (of_int (100 * b + 127) :: rat) / of_int 254"
    by (simp add: field_simps)
  then show ?thesis
    unfolding spec_brightness_decode_def round_half_up_def by (simp only: floor_divide_of_int_eq)
qed

lemma spec_color_temp_decode_div: "spec_color_temp_decode c = (60 * c - 10223) div 34"
proof -
  have "(of_int c - 250) * (500 - 140) / (454 - 250) + 140 + 1 / 2
        = (of_int (60 * c - 10223) :: rat) / of_int 34"
    by (simp add: field_simps)
  then show ?thesis
    unfolding spec_color_temp_decode_def round_half_up_def by (simp only: floor_divide_of_int_eq)
qed

lemma colorTemperature_encode_int:
  fixes v :: int
  assumes "\<bar>v\<bar> \<le> 2 ^ 40"
  shows "colorTemperature_encode (JNum (Fin (of_int v)))
         = Inr (JObj [(''color_temp'', JNum (Fin (of_int ((17 * v + 5135) div 30))))])"
  using colorTemp_encode_value[OF assms] by (simp add: colorTemperature_encode_def)

lemma colorTemperature_decode_int:
  fixes c :: int
  assumes "get msg ''color_temp'' = Inr (JNum (Fin (of_int c)))" "c \<noteq> 0" "\<bar>c\<bar> \<le> 2 ^ 40"
  shows "colorTemperature_decode msg = Inr (JNum (Fin (of_int ((60 * c - 10223) div 34))))"
  using colorTemp_decode_value[OF assms(3)] assms(1,2) by (simp add: colorTemperature_decode_def)

lemma brightness_encode_int:
  fixes v :: int
  assumes "0 \<le> v" "v \<le> 2 ^ 40"
  shows "brightness_encode (JNum (Fin (of_int v)))
         = Inr (JObj [(''state'', JStr (if (254 * v + 50) div 100 = 0 then ''OFF'' else ''ON'')),
                      (''brightness'', JNum (Fin (of_int ((254 * v + 50) div 100))))])"
  using brightness_encode_value[OF assms] by (simp add: brightness_encode_def)

lemma brightness_decode_int:
  fixes b :: int
  assumes "get msg ''brightness'' = Inr (JNum (Fin (of_int b)))" "b \<noteq> 0" "\<bar>b\<bar> \<le> 2 ^ 40"
  shows "brightness_decode msg = Inr (JNum (Fin (of_int ((100 * b + 127) div 254))))"
  using brightness_decode_value[OF assms(3)] assms(1,2) by (simp add: brightness_decode_def)

text \<open>Both rescales are monotone, and a wire brightness up to 254 decodes to at most 100.\<close>

lemma colorTemp_encode_mono:
  assumes "num_le a b"
  shows "num_le (js_round (fadd (fdiv (fmul (fsub a zigbeeMin) ikeaRange) zigbeeRange) ikeaMin))
                (js_round (fadd (fdiv (fmul (fsub b zigbeeMin) ikeaRange) zigbeeRange) ikeaMin))"
  unfolding fsub_def zigbeeMin_def ikeaMin_def ikeaRange_eq zigbeeRange_eq fneg.simps
  using assms by (intro js_round_mono fadd_mono fdiv_mono fmul_mono) simp_all

lemma colorTemp_decode_mono:
  assumes "num_le a b"
  shows "num_le (js_round (fadd (fdiv (fmul (fsub a ikeaMin) zigbeeRange) ikeaRange) zigbeeMin))
                (js_round (fadd (fdiv (fmul (fsub b ikeaMin) zigbeeRange) ikeaRange) zigbeeMin))"
  unfolding fsub_def zigbeeMin_def ikeaMin_def ikeaRange_eq zigbeeRange_eq fneg.simps
  using assms by (intro js_round_mono fadd_mono fdiv_mono fmul_mono) simp_all

lemma brightness_decode_range:
  assumes "get msg ''brightness'' = Inr (JNum (Fin x))" "0 < x" "x \<le> 254"
  shows "\<exists>r::int. brightness_decode msg = Inr (JNum (Fin (of_int r))) \<and> 0 \<le> r \<and> r \<le> 100"
proof -
  have c0: "(0::rat) < 2859785763380265 / 1125899906842624" by simp
  have "x / (2859785763380265 / 1125899906842624) \<le> 100"
    using assms(3) by (simp only: pos_divide_le_eq[OF c0])
  moreover have "0 \<le> x / (2859785763380265 / 1125899906842624)" using assms(2) by simp
  ultimately have "\<exists>y. fl (x / (2859785763380265 / 1125899906842624)) = Fin y
      \<and> of_int 0 / 1024 \<le> y \<and> y \<le> of_int 102400 / 1024"
    by (intro fl_bracket_1024) simp_all
  then obtain y where y: "fl (x / (2859785763380265 / 1125899906842624)) = Fin y" "0 \<le> y" "y \<le> 100"
    by auto
  have "0 \<le> \<lfloor>y + 1 / 2\<rfloor>" "\<lfloor>y + 1 / 2\<rfloor> \<le> 100" using y(2,3) by (simp_all add: floor_le_iff le_floor_iff)
  moreover have "brightness_decode msg = Inr (JNum (Fin (of_int \<lfloor>y + 1 / 2\<rfloor>)))"
    using assms(1,2) y(1) unfolding brightness_decode_def c254 by simp
  ultimately show ?thesis by blast
qed

lemma brightness_decode_mono:
  assumes "num_le a b"
  shows "num_le (js_round (fdiv a (fl (254 / 100)))) (js_round (fdiv b (fl (254 / 100))))"
  unfolding c254 using assms by (intro js_round_mono fdiv_mono) simp_all

lemma brightness_decode_above:
  assumes "get msg ''brightness'' = Inr (JNum (Fin x))" "256 \<le> x"
  shows "\<exists>n. brightness_decode msg = Inr (JNum n) \<and> num_le (Fin 101) n"
proof -
  define n where "n = js_round (fdiv (Fin x) (fl (254 / 100)))"
  have "num_le (Fin (of_int 256)) (Fin x)" using assms(2) by simp
  then have "num_le (js_round (fdiv (Fin (of_int 256)) (fl (254 / 100)))) n"
    unfolding n_def by (rule brightness_decode_mono)
  then have "num_le (Fin 101) n" using brightness_decode_value[of 256] by simp
  moreover have "brightness_decode msg = Inr (JNum n)"
    using assms by (simp add: brightness_decode_def n_def)
  ultimately show ?thesis by blast
qed

section \<open>The object \<open>init\<close> returns\<close>

text \<open>
  C1. The claim is that the object \<open>init\<close> returns exposes a generic \<open>encode\<close> and a generic
  \<open>decode\<close>. The literal has no such keys: its members are named \<open>function\<close> and
  \<open>properties\<close>, in this order, and the member \<open>function\<close> is the second of the two
  functions, the one that logs \<open>decode() called\<close>; reading \<open>encode\<close> or \<open>decode\<close> from the
  object finds nothing.
\<close>

theorem init_object_members:
  "map fst (snd (init name)) = [''function'', ''properties'']
   \<and> map_of (snd (init name)) ''encode'' = None
   \<and> map_of (snd (init name)) ''decode'' = None
   \<and> map_of (snd (init name)) ''function'' = Some (Method generic_decode)"
  by (simp add: init_def object_literal_def)

section \<open>The \<open>on\<close> codec\<close>

text \<open>
  C5. For every boolean \<open>b\<close>, \<open>on.encode\<close> emits \<open>{"state": "ON"}\<close> for true and
  \<open>{"state": "OFF"}\<close> for false, and \<open>on.decode\<close> of the emitted message returns exactly \<open>b\<close>.
\<close>

theorem on_roundtrip:
  "on_encode (JBool b) = JObj [(''state'', JStr (if b then ''ON'' else ''OFF''))]
   \<and> on_decode (on_encode (JBool b)) = Inr (JBool b)"
  by (simp add: on_encode_def on_decode_def)

section \<open>The \<open>brightness\<close> codec\<close>

text \<open>
  C3. For every integer \<open>v\<close> from 0 to 100, \<open>brightness.encode\<close> emits a message, and
  \<open>brightness.decode\<close> of that message returns an integer within 1 of \<open>v\<close>, except for
  \<open>v = 0\<close>, where it returns \<open>undefined\<close>.
\<close>

theorem brightness_roundtrip:
  fixes v :: int
  assumes "0 \<le> v" "v \<le> 100"
  shows "\<exists>w. brightness_encode (JNum (Fin (of_int v))) = Inr w
             \<and> (if v = 0 then brightness_decode w = Inr JUndefined
                 else \<exists>r. brightness_decode w = Inr (JNum (Fin (of_int r))) \<and> \<bar>r - v\<bar> \<le> 1)"
proof -
  define K where "K = (254 * v + 50) div 100"
  define w where "w = JObj [(''state'', JStr (if K = 0 then ''OFF'' else ''ON'')),
                            (''brightness'', JNum (Fin (of_int K)))]"
  have e: "254 * v + 50 = 100 * K + (254 * v + 50) mod 100" by (simp add: K_def)
  have "0 \<le> (254 * v + 50) mod 100" "(254 * v + 50) mod 100 < 100" by simp_all
  then have K1: "100 * K \<le> 254 * v + 50" "254 * v + 50 \<le> 100 * K + 99" using e by linarith+
  have enc: "brightness_encode (JNum (Fin (of_int v))) = Inr w"
    using assms brightness_encode_int[of v] by (simp add: w_def K_def)
  show ?thesis
  proof (cases "v = 0")
    case True
    then have "K = 0" by (simp add: K_def)
    then have "brightness_decode w = Inr JUndefined"
      by (simp add: brightness_decode_def w_def)
    then show ?thesis using enc True by simp
  next
    case False
    define r where "r = (100 * K + 127) div 254"
    have Kr: "1 \<le> K" "K \<le> 254" using K1 assms False by linarith+
    have dec: "brightness_decode w = Inr (JNum (Fin (of_int r)))"
      unfolding r_def using Kr by (intro brightness_decode_int) (simp_all add: w_def)
    have e2: "100 * K + 127 = 254 * r + (100 * K + 127) mod 254" by (simp add: r_def)
    have "0 \<le> (100 * K + 127) mod 254" "(100 * K + 127) mod 254 < 254" by simp_all
    then have "254 * r \<le> 100 * K + 127" "100 * K + 127 \<le> 254 * r + 253" using e2 by linarith+
    then have "\<bar>r - v\<bar> \<le> 1" using K1 by linarith
    then show ?thesis using enc dec False by auto
  qed
qed

text \<open>The round trip at \<open>v = 50\<close>.\<close>

theorem brightness_roundtrip_witness:
  "(0::int) \<le> 50 \<and> (50::int) \<le> 100
   \<and> (\<exists>w. brightness_encode (JNum (Fin (of_int 50))) = Inr w
           \<and> (\<exists>r. brightness_decode w = Inr (JNum (Fin (of_int r))) \<and> \<bar>r - 50\<bar> \<le> 1))"
  using brightness_roundtrip[of 50] by simp

text \<open>
  C4, as stated, fails: the decoder does not clamp. A wire brightness of 1000 decodes to
  394, above 100.
\<close>

theorem brightness_decode_exceeds_100:
  "brightness_decode (JObj [(''brightness'', JNum (Fin 1000))]) = Inr (JNum (Fin 394))"
  using brightness_decode_int[of "JObj [(''brightness'', JNum (Fin 1000))]" 1000] by simp

text \<open>
  C4, amended. For every wire message whose brightness field is a nonzero integer of
  magnitude at most \<open>2 ^ 40\<close>, \<open>brightness.decode\<close> returns \<open>round(brightness / 2.54)\<close>, not
  clamped. For every wire brightness, integer or not, above 0 and at most 254 the value
  returned is an integer between 0 and 100; for every wire brightness of 256 or more it
  is at least 101.
\<close>

theorem brightness_decode_unclamped:
  "(\<forall>msg (b::int). get msg ''brightness'' = Inr (JNum (Fin (of_int b))) \<and> b \<noteq> 0 \<and> \<bar>b\<bar> \<le> 2 ^ 40
      \<longrightarrow> brightness_decode msg = Inr (JNum (Fin (of_int (spec_brightness_decode b)))))
   \<and> (\<forall>msg (x::rat). get msg ''brightness'' = Inr (JNum (Fin x)) \<and> 0 < x \<and> x \<le> 254
      \<longrightarrow> (\<exists>r::int. brightness_decode msg = Inr (JNum (Fin (of_int r))) \<and> 0 \<le> r \<and> r \<le> 100))
   \<and> (\<forall>msg (x::rat). get msg ''brightness'' = Inr (JNum (Fin x)) \<and> 256 \<le> x
      \<longrightarrow> (\<exists>n. brightness_decode msg = Inr (JNum n) \<and> num_le (Fin 101) n))"
  using brightness_decode_int brightness_decode_range brightness_decode_above
  by (simp add: spec_brightness_decode_div)

text \<open>The wire brightness 254 decodes to 100, and 256 to more than 100.\<close>

theorem brightness_decode_unclamped_witness:
  "get (JObj [(''state'', JStr ''ON''), (''brightness'', JNum (Fin (of_int 254)))]) ''brightness''
     = Inr (JNum (Fin (of_int 254)))
   \<and> (254::int) \<noteq> 0 \<and> \<bar>254::int\<bar> \<le> 2 ^ 40 \<and> (0::rat) < of_int 254 \<and> (of_int 254 :: rat) \<le> 254
   \<and> brightness_decode (JObj [(''state'', JStr ''ON''), (''brightness'', JNum (Fin (of_int 254)))])
       = Inr (JNum (Fin 100))
   \<and> get (JObj [(''brightness'', JNum (Fin 256))]) ''brightness'' = Inr (JNum (Fin 256))
   \<and> (256::rat) \<le> 256
   \<and> (\<exists>n. brightness_decode (JObj [(''brightness'', JNum (Fin 256))]) = Inr (JNum n)
           \<and> num_le (Fin 101) n)"
proof -
  have 1: "brightness_decode (JObj [(''state'', JStr ''ON''), (''brightness'', JNum (Fin (of_int 254)))])
       = Inr (JNum (Fin 100))"
    using brightness_decode_unclamped[THEN conjunct1, rule_format,
      of "JObj [(''state'', JStr ''ON''), (''brightness'', JNum (Fin (of_int 254)))]" 254]
    brightness_decode_unclamped[THEN conjunct2, THEN conjunct1, rule_format,
      of "JObj [(''state'', JStr ''ON''), (''brightness'', JNum (Fin (of_int 254)))]" "of_int 254"]
    by (simp add: spec_brightness_decode_div)
  have 2: "\<exists>n. brightness_decode (JObj [(''brightness'', JNum (Fin 256))]) = Inr (JNum n)
           \<and> num_le (Fin 101) n"
    using brightness_decode_unclamped[THEN conjunct2, THEN conjunct2, rule_format,
      of "JObj [(''brightness'', JNum (Fin 256))]" 256] by simp
  show ?thesis using 1 2 by simp
qed

section \<open>The \<open>colorTemperature\<close> codec\<close>



text \<open>
  C2. For every integer \<open>v\<close> from 140 to 500, \<open>colorTemperature.decode\<close> of the message that
  \<open>colorTemperature.encode\<close> emits for \<open>v\<close> returns an integer within 1 of \<open>v\<close>, never
  \<open>undefined\<close>.
\<close>

theorem colorTemperature_roundtrip:
  fixes v :: int
  assumes "140 \<le> v" "v \<le> 500"
  shows "\<exists>w r. colorTemperature_encode (JNum (Fin (of_int v))) = Inr w
               \<and> colorTemperature_decode w = Inr (JNum (Fin (of_int r)))
               \<and> \<bar>r - v\<bar> \<le> 1"
proof -
  define K where "K = (17 * v + 5135) div 30"
  define w where "w = JObj [(''color_temp'', JNum (Fin (of_int K)))]"
  define r where "r = (60 * K - 10223) div 34"
  have e: "17 * v + 5135 = 30 * K + (17 * v + 5135) mod 30" by (simp add: K_def)
  have "0 \<le> (17 * v + 5135) mod 30" "(17 * v + 5135) mod 30 < 30" by simp_all
  then have K1: "30 * K \<le> 17 * v + 5135" "17 * v + 5135 \<le> 30 * K + 29" using e by linarith+
  have Kr: "250 \<le> K" "K \<le> 454" using K1 assms by linarith+
  have enc: "colorTemperature_encode (JNum (Fin (of_int v))) = Inr w"
    using assms colorTemperature_encode_int[of v] by (simp add: w_def K_def)
  have dec: "colorTemperature_decode w = Inr (JNum (Fin (of_int r)))"
    unfolding r_def using Kr by (intro colorTemperature_decode_int) (simp_all add: w_def)
  have e2: "60 * K - 10223 = 34 * r + (60 * K - 10223) mod 34" by (simp add: r_def)
  have "0 \<le> (60 * K - 10223) mod 34" "(60 * K - 10223) mod 34 < 34" by simp_all
  then have "34 * r \<le> 60 * K - 10223" "60 * K - 10223 \<le> 34 * r + 33" using e2 by linarith+
  then have "\<bar>r - v\<bar> \<le> 1" using K1 by linarith
  then show ?thesis using enc dec by blast
qed

text \<open>The round trip at \<open>v = 321\<close>.\<close>

theorem colorTemperature_roundtrip_witness:
  "(140::int) \<le> 321 \<and> (321::int) \<le> 500
   \<and> (\<exists>w r. colorTemperature_encode (JNum (Fin (of_int 321))) = Inr w
               \<and> colorTemperature_decode w = Inr (JNum (Fin (of_int r)))
               \<and> \<bar>r - 321\<bar> \<le> 1)"
  using colorTemperature_roundtrip[of 321] by simp

text \<open>
  C10, as stated, fails for a wire value that is not an integer: 249.75 lies outside
  250..454, and the decoder returns \<open>round(139.56)\<close> = 140, inside 140..500.
\<close>

theorem colorTemperature_decode_fraction:
  "colorTemperature_decode (JObj [(''color_temp'', JNum (Fin (999 / 4)))]) = Inr (JNum (Fin 140))"
proof -
  have "\<exists>y. fl (999 / 4 + - 250) = Fin y \<and> of_int (- 256) / 1024 \<le> y \<and> y \<le> of_int (- 256) / 1024"
    by (intro fl_bracket_1024) simp_all
  then have s1: "fsub (Fin (999 / 4)) ikeaMin = Fin (- (1 / 4))"
    by (auto simp: fsub_def ikeaMin_def)
  have s2: "fmul (Fin (- (1 / 4))) zigbeeRange = Fin (- 90)"
    using fl_int[of "- 90"] by (simp add: zigbeeRange_eq)
  have "\<exists>y. fl (- 90 / 204) = Fin y \<and> of_int (- 452) / 1024 \<le> y \<and> y \<le> of_int (- 451) / 1024"
    by (intro fl_bracket_1024) simp_all
  then obtain y where y: "fl (- 90 / 204) = Fin y" "- 452 / 1024 \<le> y" "y \<le> - 451 / 1024"
    by auto
  have s3: "fdiv (Fin (- 90)) ikeaRange = Fin y" using y(1) by (simp add: ikeaRange_eq)
  have s4: "js_round (fadd (Fin y) zigbeeMin) = Fin (of_int 140)"
    unfolding zigbeeMin_def fadd.simps using y(2,3) by (intro round_fl) simp_all
  have "js_round (fadd (fdiv (fmul (fsub (Fin (999 / 4)) ikeaMin) zigbeeRange) ikeaRange) zigbeeMin)
        = Fin 140"
    using s4 by (simp only: s1 s2 s3) simp
  then show ?thesis by (simp add: colorTemperature_decode_def)
qed

text \<open>
  C10, amended. Neither direction validates or clamps. For every integer \<open>v\<close> outside
  140..500 the encoder emits the \<open>color_temp\<close> it computes, a Number \<open>n\<close> that is at most
  249 or at least 455 (an infinite one, reached only when the product overflows, is
  written \<open>null\<close>); up to a magnitude of \<open>2 ^ 40\<close> it is the rescaled value
  \<open>round((v - 140) * (454-250)/(500-140) + 250)\<close>, and \<open>encode(0)\<close> emits 171. For every
  nonzero integer wire \<open>color_temp\<close> outside 250..454 the decoder returns a Number that
  is at most 138 or at least 502; up to a magnitude of \<open>2 ^ 40\<close> it is the inverse rescale
  \<open>round((c - 250) * (500-140)/(454-250) + 140)\<close>.
\<close>

theorem colorTemperature_no_clamping:
  "(\<forall>v::int. v < 140 \<or> 500 < v \<longrightarrow>
      (\<exists>n. colorTemperature_encode (JNum (Fin (of_int v)))
               = Inr (JObj [(''color_temp'', json_num n)])
           \<and> (num_le n (Fin 249) \<or> num_le (Fin 455) n)
           \<and> (\<bar>v\<bar> \<le> 2 ^ 40 \<longrightarrow> n = Fin (of_int (spec_color_temp v)))))
   \<and> colorTemperature_encode (JNum (Fin 0)) = Inr (JObj [(''color_temp'', JNum (Fin 171))])
   \<and> (\<forall>msg (c::int). get msg ''color_temp'' = Inr (JNum (Fin (of_int c))) \<and> c \<noteq> 0
          \<and> (c < 250 \<or> 454 < c) \<longrightarrow>
      (\<exists>n. colorTemperature_decode msg = Inr (JNum n)
           \<and> (num_le n (Fin 138) \<or> num_le (Fin 502) n)
           \<and> (\<bar>c\<bar> \<le> 2 ^ 40 \<longrightarrow> n = Fin (of_int (spec_color_temp_decode c)))))"
proof (intro conjI allI impI)
  fix v :: int
  assume a: "v < 140 \<or> 500 < v"
  define n where
    "n = js_round (fadd (fdiv (fmul (fsub (Fin (of_int v)) zigbeeMin) ikeaRange) zigbeeRange) ikeaMin)"
  have enc: "colorTemperature_encode (JNum (Fin (of_int v))) = Inr (JObj [(''color_temp'', json_num n)])"
    by (simp add: colorTemperature_encode_def n_def)
  have out: "num_le n (Fin 249) \<or> num_le (Fin 455) n"
  proof (cases "v < 140")
    case True
    then have "num_le (Fin (of_int v)) (Fin (of_int 139))" by simp
    then have "num_le n (Fin (of_int ((17 * 139 + 5135) div 30)))"
      unfolding n_def using colorTemp_encode_mono colorTemp_encode_value[of 139] by fastforce
    then show ?thesis by simp
  next
    case False
    then have "num_le (Fin (of_int 501)) (Fin (of_int v))" using a by simp
    then have "num_le (Fin (of_int ((17 * 501 + 5135) div 30))) n"
      unfolding n_def using colorTemp_encode_mono colorTemp_encode_value[of 501] by fastforce
    then show ?thesis by simp
  qed
  have "\<bar>v\<bar> \<le> 2 ^ 40 \<longrightarrow> n = Fin (of_int (spec_color_temp v))"
    unfolding n_def using colorTemp_encode_value[of v] by (simp add: spec_color_temp_div)
  then show "\<exists>n. colorTemperature_encode (JNum (Fin (of_int v)))
               = Inr (JObj [(''color_temp'', json_num n)])
           \<and> (num_le n (Fin 249) \<or> num_le (Fin 455) n)
           \<and> (\<bar>v\<bar> \<le> 2 ^ 40 \<longrightarrow> n = Fin (of_int (spec_color_temp v)))"
    using enc out by blast
next
  show "colorTemperature_encode (JNum (Fin 0)) = Inr (JObj [(''color_temp'', JNum (Fin 171))])"
    using colorTemperature_encode_int[of 0] by simp
next
  fix msg and c :: int
  assume a: "get msg ''color_temp'' = Inr (JNum (Fin (of_int c))) \<and> c \<noteq> 0 \<and> (c < 250 \<or> 454 < c)"
  define n where
    "n = js_round (fadd (fdiv (fmul (fsub (Fin (of_int c)) ikeaMin) zigbeeRange) ikeaRange) zigbeeMin)"
  have dec: "colorTemperature_decode msg = Inr (JNum n)"
    using a by (simp add: colorTemperature_decode_def n_def)
  have out: "num_le n (Fin 138) \<or> num_le (Fin 502) n"
  proof (cases "c < 250")
    case True
    then have "num_le (Fin (of_int c)) (Fin (of_int 249))" by simp
    then have "num_le n (Fin (of_int ((60 * 249 - 10223) div 34)))"
      unfolding n_def using colorTemp_decode_mono colorTemp_decode_value[of 249] by fastforce
    then show ?thesis by simp
  next
    case False
    then have "num_le (Fin (of_int 455)) (Fin (of_int c))" using a by simp
    then have "num_le (Fin (of_int ((60 * 455 - 10223) div 34))) n"
      unfolding n_def using colorTemp_decode_mono colorTemp_decode_value[of 455] by fastforce
    then show ?thesis by simp
  qed
  have "\<bar>c\<bar> \<le> 2 ^ 40 \<longrightarrow> n = Fin (of_int (spec_color_temp_decode c))"
    unfolding n_def using colorTemp_decode_value[of c] by (simp add: spec_color_temp_decode_div)
  then show "\<exists>n. colorTemperature_decode msg = Inr (JNum n)
           \<and> (num_le n (Fin 138) \<or> num_le (Fin 502) n)
           \<and> (\<bar>c\<bar> \<le> 2 ^ 40 \<longrightarrow> n = Fin (of_int (spec_color_temp_decode c)))"
    using dec out by blast
qed

text \<open>One step outside either range: 501 is encoded to 455, and 249 is decoded to 138.\<close>

theorem colorTemperature_no_clamping_witness:
  "((501::int) < 140 \<or> (500::int) < 501) \<and> \<bar>501::int\<bar> \<le> 2 ^ 40
   \<and> colorTemperature_encode (JNum (Fin (of_int 501))) = Inr (JObj [(''color_temp'', JNum (Fin 455))])
   \<and> get (JObj [(''color_temp'', JNum (Fin (of_int 249)))]) ''color_temp''
       = Inr (JNum (Fin (of_int 249)))
   \<and> (249::int) \<noteq> 0 \<and> ((249::int) < 250 \<or> (454::int) < 249) \<and> \<bar>249::int\<bar> \<le> 2 ^ 40
   \<and> colorTemperature_decode (JObj [(''color_temp'', JNum (Fin (of_int 249)))])
       = Inr (JNum (Fin 138))"
proof -
  have 1: "colorTemperature_encode (JNum (Fin (of_int 501))) = Inr (JObj [(''color_temp'', JNum (Fin 455))])"
    using colorTemperature_no_clamping[THEN conjunct1, rule_format, of 501]
    by (auto simp: spec_color_temp_div)
  have 2: "colorTemperature_decode (JObj [(''color_temp'', JNum (Fin (of_int 249)))])
       = Inr (JNum (Fin 138))"
    using colorTemperature_no_clamping[THEN conjunct2, THEN conjunct2, rule_format,
        of "JObj [(''color_temp'', JNum (Fin (of_int 249)))]" 249]
    by (auto simp: spec_color_temp_decode_div)
  show ?thesis using 1 2 by simp
qed

section \<open>The \<open>RGB\<close> encoder\<close>

text \<open>An integer literal has no comma, so \<open>split\<close> gives back the three literals.\<close>

lemma is_digit_not_comma: "is_digit c \<Longrightarrow> c \<noteq> CHR '',''"
  by (auto simp: is_digit_def)

lemma unsigned_literal_no_comma: "unsigned_literal ds = Some n \<Longrightarrow> CHR '','' \<notin> set ds"
  by (auto simp: unsigned_literal_def list_all_iff dest: is_digit_not_comma split: if_splits)

lemma int_literal_no_comma: "int_literal s = Some i \<Longrightarrow> CHR '','' \<notin> set s"
  by (cases s) (auto split: if_splits dest: unsigned_literal_no_comma)

lemma split_comma_single: "CHR '','' \<notin> set s \<Longrightarrow> split_comma s = [s]"
  by (induction s) auto

lemma split_comma_append:
  "CHR '','' \<notin> set a \<Longrightarrow> split_comma (a @ CHR '','' # rest) = a # split_comma rest"
  by (induction a) auto

lemma split_comma_three:
  assumes "CHR '','' \<notin> set a" "CHR '','' \<notin> set b" "CHR '','' \<notin> set c"
  shows "split_comma (a @ '','' @ b @ '','' @ c) = [a, b, c]"
  using assms by (simp add: split_comma_append split_comma_single)

lemma to_number_literal:
  assumes "int_literal s = Some i" "\<bar>i\<bar> < 2 ^ 53"
  shows "to_number (JStr s) = Inr (Fin (of_int i))"
  using assms fl_int[of i] by simp

lemma literals: "int_literal ''255'' = Some 255" "int_literal ''0'' = Some 0"
    "int_literal ''36'' = Some 36" "int_literal ''12'' = Some 12"
  by (simp_all add: unsigned_literal_def is_digit_def digits_value_def)

text \<open>What \<open>RGB.encode\<close> emits for three integer literals, once the brightness is known.\<close>

lemma rgb_encode_literals:
  assumes lits: "int_literal sr = Some r" "int_literal sg = Some g" "int_literal sb = Some b"
    and bnd: "\<bar>r\<bar> < 2 ^ 53" "\<bar>g\<bar> < 2 ^ 53" "\<bar>b\<bar> < 2 ^ 53"
    and l: "js_round (fadd (fadd (fmul (fl (299 / 1000)) (Fin (of_int r)))
                                 (fmul (fl (587 / 1000)) (Fin (of_int g))))
                           (fmul (fl (114 / 1000)) (Fin (of_int b)))) = Fin (of_int l)"
  shows "rgb_encode (sr @ '','' @ sg @ '','' @ sb)
         = Inr ([Log (''RGB encode request: '' @ sr @ '','' @ sg @ '','' @ sb),
                 LogWire ''RGB encode response: ''
                   (JObj [(''state'', JStr (if l = 0 then ''OFF'' else ''ON'')),
                          (''brightness'', JNum (Fin (of_int l))),
                          (''color'', JObj [(''r'', JNum (Fin (of_int r))),
                                            (''g'', JNum (Fin (of_int g))),
                                            (''b'', JNum (Fin (of_int b)))])])],
                JObj [(''state'', JStr (if l = 0 then ''OFF'' else ''ON'')),
                      (''brightness'', JNum (Fin (of_int l))),
                      (''color'', JObj [(''r'', JNum (Fin (of_int r))),
                                        (''g'', JNum (Fin (of_int g))),
                                        (''b'', JNum (Fin (of_int b)))])])"
proof -
  have split: "split_comma (sr @ '','' @ sg @ '','' @ sb) = [sr, sg, sb]"
    using lits by (intro split_comma_three) (simp_all add: int_literal_no_comma)
  have n: "to_number (JStr sr) = Inr (Fin (of_int r))" "to_number (JStr sg) = Inr (Fin (of_int g))"
      "to_number (JStr sb) = Inr (Fin (of_int b))"
    using lits bnd by (simp_all only: to_number_literal)
  have el: "element [sr, sg, sb] 0 = JStr sr" "element [sr, sg, sb] 1 = JStr sg"
      "element [sr, sg, sb] 2 = JStr sb"
    by (simp_all add: element_def)
  show ?thesis
    apply (simp only: rgb_encode_def split Let_def el n prod.case sum.case l)
    apply simp
    done
qed

text \<open>
  The sum the encoder rounds stays within \<open>1/2048\<close> of the exact
  \<open>0.299*r + 0.587*g + 0.114*b\<close>, which is a tie exactly when
  \<open>299*r + 587*g + 114*b\<close> leaves the remainder 500 modulo 1000.
\<close>

lemma int_bound_rat32:
  fixes n :: int
  assumes "\<bar>n\<bar> \<le> 2 ^ 32"
  shows "- 4294967296 \<le> (of_int n :: rat)" and "(of_int n :: rat) \<le> 4294967296"
proof -
  have "- 4294967296 \<le> n" "n \<le> 4294967296" using assms by simp_all
  then show "- 4294967296 \<le> (of_int n :: rat)" and "(of_int n :: rat) \<le> 4294967296"
    by simp_all
qed

lemma luma_close:
  fixes R G B :: rat
  assumes R: "- 4294967296 \<le> R" "R \<le> 4294967296"
    and G: "- 4294967296 \<le> G" "G \<le> 4294967296"
    and B: "- 4294967296 \<le> B" "B \<le> 4294967296"
  shows "\<exists>y. fadd (fadd (fmul (fl (299 / 1000)) (Fin R)) (fmul (fl (587 / 1000)) (Fin G)))
                  (fmul (fl (114 / 1000)) (Fin B)) = Fin y
             \<and> 299 / 1000 * R + 587 / 1000 * G + 114 / 1000 * B - 1 / 2048 \<le> y
             \<and> y \<le> 299 / 1000 * R + 587 / 1000 * G + 114 / 1000 * B + 1 / 2048"
proof -
  obtain p1 where p1: "fl (5386305154335113 / 18014398509481984 * R) = Fin p1"
      "5386305154335113 / 18014398509481984 * R - 1 / 16384 \<le> p1"
      "p1 \<le> 5386305154335113 / 18014398509481984 * R + 1 / 16384"
    using fl_close_between[of "5386305154335113 / 18014398509481984 * R"] R by auto
  obtain p2 where p2: "fl (2643612981266481 / 4503599627370496 * G) = Fin p2"
      "2643612981266481 / 4503599627370496 * G - 1 / 16384 \<le> p2"
      "p2 \<le> 2643612981266481 / 4503599627370496 * G + 1 / 16384"
    using fl_close_between[of "2643612981266481 / 4503599627370496 * G"] G by auto
  obtain p3 where p3: "fl (8214565720323785 / 72057594037927936 * B) = Fin p3"
      "8214565720323785 / 72057594037927936 * B - 1 / 16384 \<le> p3"
      "p3 \<le> 8214565720323785 / 72057594037927936 * B + 1 / 16384"
    using fl_close_between[of "8214565720323785 / 72057594037927936 * B"] B by auto
  have "- 274877906944 \<le> p1 + p2" "p1 + p2 \<le> 274877906944"
    using p1(2,3) p2(2,3) R G by linarith+
  then obtain s1 where s1: "fl (p1 + p2) = Fin s1" "p1 + p2 - 1 / 16384 \<le> s1"
      "s1 \<le> p1 + p2 + 1 / 16384"
    using fl_close_between[of "p1 + p2"] by auto
  have "- 274877906944 \<le> s1 + p3" "s1 + p3 \<le> 274877906944"
    using s1(2,3) p1(2,3) p2(2,3) p3(2,3) R G B by linarith+
  then obtain y where y: "fl (s1 + p3) = Fin y" "s1 + p3 - 1 / 16384 \<le> y"
      "y \<le> s1 + p3 + 1 / 16384"
    using fl_close_between[of "s1 + p3"] by auto
  have e: "fadd (fadd (fmul (fl (299 / 1000)) (Fin R)) (fmul (fl (587 / 1000)) (Fin G)))
                  (fmul (fl (114 / 1000)) (Fin B)) = Fin y"
    unfolding c299 c587 c114 fmul.simps p1(1) p2(1) p3(1) fadd.simps s1(1) y(1) ..
  have "299 / 1000 * R + 587 / 1000 * G + 114 / 1000 * B - 1 / 2048 \<le> y"
    using y(2) s1(2) p1(2) p2(2) p3(2) R G B by linarith
  moreover have "y \<le> 299 / 1000 * R + 587 / 1000 * G + 114 / 1000 * B + 1 / 2048"
    using y(3) s1(3) p1(3) p2(3) p3(3) R G B by linarith
  ultimately show ?thesis using e by blast
qed

lemma spec_luma_div: "spec_luma r g b = (299 * r + 587 * g + 114 * b + 500) div 1000"
proof -
  have "299 / 1000 * of_int r + 587 / 1000 * of_int g + 114 / 1000 * of_int b + 1 / 2
        = (of_int (299 * r + 587 * g + 114 * b + 500) :: rat) / of_int 1000"
    by (simp add: field_simps)
  then show ?thesis
    unfolding spec_luma_def round_half_up_def by (simp only: floor_divide_of_int_eq)
qed

lemma tie_iff:
  fixes S :: int
  shows "(S mod 1000 = 500) = ((S + 500) mod 1000 = 0)"
proof -
  define s where "s = S mod 1000"
  have r: "0 \<le> s" "s < 1000" by (simp_all add: s_def)
  have e: "(S + 500) mod 1000 = (s + 500) mod 1000" unfolding s_def by (simp add: mod_add_left_eq)
  show ?thesis
  proof (cases "s < 500")
    case True
    then have "(s + 500) mod 1000 = s + 500" using r by (intro mod_pos_pos_trivial) simp_all
    then show ?thesis using True r e unfolding s_def[symmetric] by simp
  next
    case False
    have "s + 500 = s - 500 + 1000" by linarith
    then have "(s + 500) mod 1000 = (s - 500 + 1000) mod 1000" by (rule arg_cong)
    also have "\<dots> = (s - 500) mod 1000" by (simp only: mod_add_self2)
    also have "\<dots> = s - 500" using False r by (intro mod_pos_pos_trivial) simp_all
    finally show ?thesis using e unfolding s_def[symmetric] by simp
  qed
qed

text \<open>At \<open>0,36,12\<close> the exact sum is 22.5; the Numbers add up to \<open>22.499999999999996\<close>.\<close>

lemma luma_0_36_12:
  "js_round (fadd (fadd (fmul (fl (299 / 1000)) (Fin (of_int 0)))
                        (fmul (fl (587 / 1000)) (Fin (of_int 36))))
                  (fmul (fl (114 / 1000)) (Fin (of_int 12)))) = Fin (of_int 22)"
proof -
  have t1: "fl (5386305154335113 / 18014398509481984 * 0) = Fin 0" by (simp add: fl_def)
  have "fl (2643612981266481 / 4503599627370496 * 36)
        = Fin (of_int 5948129207849582 * 2 powi (4 - 52))"
    by (rule fl_near) (simp_all add: power_int_minus)
  then have p2: "fl (2643612981266481 / 4503599627370496 * 36)
                 = Fin (2974064603924791 / 140737488355328)"
    by (simp add: power_int_minus)
  have "fl (0 + 2974064603924791 / 140737488355328)
        = Fin (of_int 5948129207849582 * 2 powi (4 - 52))"
    by (rule fl_near) (simp_all add: power_int_minus)
  then have a1: "fl (0 + 2974064603924791 / 140737488355328)
                 = Fin (2974064603924791 / 140737488355328)"
    by (simp add: power_int_minus)
  have "fl (8214565720323785 / 72057594037927936 * 12)
        = Fin (of_int 6160924290242839 * 2 powi (0 - 52))"
    by (rule fl_near) (simp_all add: power_int_minus)
  then have p3: "fl (8214565720323785 / 72057594037927936 * 12)
                 = Fin (6160924290242839 / 4503599627370496)"
    by (simp add: power_int_minus)
  have "fl (2974064603924791 / 140737488355328 + 6160924290242839 / 4503599627370496)
        = Fin (of_int 6333186975989759 * 2 powi (4 - 52))"
    by (rule fl_near) (simp_all add: power_int_minus)
  then have s: "fl (2974064603924791 / 140737488355328 + 6160924290242839 / 4503599627370496)
                = Fin (6333186975989759 / 281474976710656)"
    by (simp add: power_int_minus)
  have "\<lfloor>6333186975989759 / 281474976710656 + 1 / 2 :: rat\<rfloor> = 22"
    by (rule floor_unique) simp_all
  then have r: "js_round (Fin (6333186975989759 / 281474976710656)) = Fin (of_int 22)"
    by (simp only: js_round.simps)
  show ?thesis
    unfolding c299 c587 c114 of_int_numeral of_int_0 fmul.simps t1 p2 p3 fadd.simps a1 s r ..
qed

text \<open>
  C8, as stated, fails where the luma is a tie: \<open>encode("0,36,12")\<close> emits brightness 22,
  and \<open>round(0.299*0 + 0.587*36 + 0.114*12)\<close> = \<open>round(22.5)\<close> is 23.
\<close>

theorem rgb_encode_tie_rounds_down:
  "rgb_encode ''0,36,12''
     = Inr ([Log ''RGB encode request: 0,36,12'',
             LogWire ''RGB encode response: ''
               (JObj [(''state'', JStr ''ON''), (''brightness'', JNum (Fin 22)),
                      (''color'', JObj [(''r'', JNum (Fin 0)), (''g'', JNum (Fin 36)),
                                        (''b'', JNum (Fin 12))])])],
            JObj [(''state'', JStr ''ON''), (''brightness'', JNum (Fin 22)),
                  (''color'', JObj [(''r'', JNum (Fin 0)), (''g'', JNum (Fin 36)),
                                    (''b'', JNum (Fin 12))])])
   \<and> spec_luma 0 36 12 = 23"
proof -
  have b: "\<bar>0 :: int\<bar> < 2 ^ 53" "\<bar>36 :: int\<bar> < 2 ^ 53" "\<bar>12 :: int\<bar> < 2 ^ 53" by simp_all
  show ?thesis
    using rgb_encode_literals[OF literals(2) literals(3) literals(4) b luma_0_36_12]
    by (simp add: spec_luma_div)
qed

text \<open>The brightness emitted for three literals, against the formula in exact arithmetic.\<close>

lemma rgb_encode_exact:
  assumes "int_literal sr = Some r" "int_literal sg = Some g" "int_literal sb = Some b"
    and "\<bar>r\<bar> \<le> 2 ^ 32" "\<bar>g\<bar> \<le> 2 ^ 32" "\<bar>b\<bar> \<le> 2 ^ 32"
  shows "\<exists>(l::int) events.
           rgb_encode (sr @ '','' @ sg @ '','' @ sb)
             = Inr (events,
                    JObj [(''state'', JStr (if l = 0 then ''OFF'' else ''ON'')),
                          (''brightness'', JNum (Fin (of_int l))),
                          (''color'', JObj [(''r'', JNum (Fin (of_int r))),
                                            (''g'', JNum (Fin (of_int g))),
                                            (''b'', JNum (Fin (of_int b)))])])
           \<and> (if (299 * r + 587 * g + 114 * b) mod 1000 = 500
               then l = spec_luma r g b \<or> l = spec_luma r g b - 1
               else l = spec_luma r g b)"
proof -
  define S where "S = 299 * r + 587 * g + 114 * b"
  define K where "K = spec_luma r g b"
  have Kd: "K = (S + 500) div 1000" by (simp add: K_def S_def spec_luma_div)
  obtain y where y:
      "fadd (fadd (fmul (fl (299 / 1000)) (Fin (of_int r))) (fmul (fl (587 / 1000)) (Fin (of_int g))))
            (fmul (fl (114 / 1000)) (Fin (of_int b))) = Fin y"
      "299 / 1000 * of_int r + 587 / 1000 * of_int g + 114 / 1000 * of_int b - 1 / 2048 \<le> y"
      "y \<le> 299 / 1000 * of_int r + 587 / 1000 * of_int g + 114 / 1000 * of_int b + 1 / 2048"
    using luma_close[OF int_bound_rat32[OF assms(4)] int_bound_rat32[OF assms(5)]
        int_bound_rat32[OF assms(6)]] by blast
  define l where "l = \<lfloor>y + 1 / 2\<rfloor>"
  have E: "299 / 1000 * of_int r + 587 / 1000 * of_int g + 114 / 1000 * of_int b
           = (of_int S :: rat) / 1000"
    by (simp add: S_def)
  have y1: "of_int S / 1000 - 1 / 2048 \<le> y" and y2: "y \<le> of_int S / 1000 + 1 / 2048"
    using y(2,3) unfolding E by simp_all
  have e: "S + 500 = 1000 * K + (S + 500) mod 1000" by (simp add: Kd)
  have rho: "0 \<le> (S + 500) mod 1000" "(S + 500) mod 1000 < 1000" by simp_all
  have rel: "if S mod 1000 = 500 then l = K \<or> l = K - 1 else l = K"
  proof (cases "S mod 1000 = 500")
    case True
    then have "(S + 500) mod 1000 = 0" by (rule tie_iff[THEN iffD1])
    then have "S + 500 = 1000 * K" using e by simp
    then have "(of_int (S + 500) :: rat) = of_int (1000 * K)" by (simp only:)
    then have "(of_int S :: rat) / 1000 = of_int K - 1 / 2" by simp
    then have "of_int K - 1 \<le> y + 1 / 2" "y + 1 / 2 < of_int K + 1"
      using y1 y2 by linarith+
    then have "of_int (K - 1) \<le> y + 1 / 2" "y + 1 / 2 < of_int (K + 1)"
      by simp_all
    then have "K - 1 \<le> l" "l < K + 1"
      unfolding l_def by (simp_all only: le_floor_iff floor_less_iff)
    then show ?thesis using True by auto
  next
    case False
    have "(S + 500) mod 1000 \<noteq> 0"
    proof
      assume "(S + 500) mod 1000 = 0"
      then have "S mod 1000 = 500" by (rule tie_iff[THEN iffD2])
      then show False using False by contradiction
    qed
    then have "1000 * K + 1 \<le> S + 500" "S + 500 \<le> 1000 * K + 999" using e rho by linarith+
    then have "(of_int (1000 * K + 1) :: rat) \<le> of_int (S + 500)"
        "(of_int (S + 500) :: rat) \<le> of_int (1000 * K + 999)"
      by (simp_all only: of_int_le_iff)
    then have "1000 * (of_int K :: rat) + 1 \<le> of_int S + 500"
        "(of_int S :: rat) + 500 \<le> 1000 * of_int K + 999" by simp_all
    then have "of_int K \<le> y + 1 / 2" "y + 1 / 2 < of_int K + 1" using y1 y2 by linarith+
    then have "l = K" unfolding l_def by (intro floor_unique)
    then show ?thesis using False by simp
  qed
  have b53: "\<bar>r\<bar> < 2 ^ 53" "\<bar>g\<bar> < 2 ^ 53" "\<bar>b\<bar> < 2 ^ 53" using assms(4-6) by simp_all
  have "js_round (fadd (fadd (fmul (fl (299 / 1000)) (Fin (of_int r)))
                                 (fmul (fl (587 / 1000)) (Fin (of_int g))))
                           (fmul (fl (114 / 1000)) (Fin (of_int b)))) = Fin (of_int l)"
    unfolding y(1) l_def by simp
  from rgb_encode_literals[OF assms(1-3) b53 this] rel
  show ?thesis unfolding S_def K_def by blast
qed

text \<open>
  C8, amended. For every input \<open>"r,g,b"\<close> made of three integer literals of magnitude at
  most \<open>2 ^ 32\<close>, \<open>RGB.encode\<close> emits an object whose \<open>color\<close> is \<open>{r, g, b}\<close>, whose
  \<open>brightness\<close> is an integer and whose \<open>state\<close> is \<open>"ON"\<close> exactly when that brightness is
  not zero. The brightness is \<open>round(0.299*r + 0.587*g + 0.114*b)\<close>, except that where the
  luma lies exactly halfway between two integers it is that value or the integer below.
  In particular \<open>encode("255,0,0")\<close> emits brightness 76, state \<open>"ON"\<close> and color
  \<open>{r: 255, g: 0, b: 0}\<close>.
\<close>

theorem rgb_encode_well_formed:
  assumes "int_literal sr = Some r" "int_literal sg = Some g" "int_literal sb = Some b"
    and "\<bar>r\<bar> \<le> 2 ^ 32" "\<bar>g\<bar> \<le> 2 ^ 32" "\<bar>b\<bar> \<le> 2 ^ 32"
  shows "(\<exists>(l::int) events.
           rgb_encode (sr @ '','' @ sg @ '','' @ sb)
             = Inr (events,
                    JObj [(''state'', JStr (if l = 0 then ''OFF'' else ''ON'')),
                          (''brightness'', JNum (Fin (of_int l))),
                          (''color'', JObj [(''r'', JNum (Fin (of_int r))),
                                            (''g'', JNum (Fin (of_int g))),
                                            (''b'', JNum (Fin (of_int b)))])])
           \<and> (if (299 * r + 587 * g + 114 * b) mod 1000 = 500
               then l = spec_luma r g b \<or> l = spec_luma r g b - 1
               else l = spec_luma r g b))
         \<and> (\<exists>events. rgb_encode ''255,0,0''
               = Inr (events,
                      JObj [(''state'', JStr ''ON''), (''brightness'', JNum (Fin 76)),
                            (''color'', JObj [(''r'', JNum (Fin 255)), (''g'', JNum (Fin 0)),
                                              (''b'', JNum (Fin 0))])]))"
proof
  show "\<exists>(l::int) events.
           rgb_encode (sr @ '','' @ sg @ '','' @ sb)
             = Inr (events,
                    JObj [(''state'', JStr (if l = 0 then ''OFF'' else ''ON'')),
                          (''brightness'', JNum (Fin (of_int l))),
                          (''color'', JObj [(''r'', JNum (Fin (of_int r))),
                                            (''g'', JNum (Fin (of_int g))),
                                            (''b'', JNum (Fin (of_int b)))])])
           \<and> (if (299 * r + 587 * g + 114 * b) mod 1000 = 500
               then l = spec_luma r g b \<or> l = spec_luma r g b - 1
               else l = spec_luma r g b)"
    using assms by (rule rgb_encode_exact)
next
  have b: "\<bar>255 :: int\<bar> \<le> 2 ^ 32" "\<bar>0 :: int\<bar> \<le> 2 ^ 32" by simp_all
  obtain l :: int and events where
    e: "rgb_encode (''255'' @ '','' @ ''0'' @ '','' @ ''0'')
             = Inr (events,
                    JObj [(''state'', JStr (if l = 0 then ''OFF'' else ''ON'')),
                          (''brightness'', JNum (Fin (of_int l))),
                          (''color'', JObj [(''r'', JNum (Fin (of_int 255))),
                                            (''g'', JNum (Fin (of_int 0))),
                                            (''b'', JNum (Fin (of_int 0)))])])"
    and l: "if (299 * 255 + 587 * 0 + 114 * 0) mod 1000 = (500 :: int)
            then l = spec_luma 255 0 0 \<or> l = spec_luma 255 0 0 - 1
            else l = spec_luma 255 0 0"
    using rgb_encode_exact[OF literals(1) literals(2) literals(2) b(1) b(2) b(2)] by blast
  have "l = 76" using l by (simp add: spec_luma_div)
  then show "\<exists>events. rgb_encode ''255,0,0''
               = Inr (events,
                      JObj [(''state'', JStr ''ON''), (''brightness'', JNum (Fin 76)),
                            (''color'', JObj [(''r'', JNum (Fin 255)), (''g'', JNum (Fin 0)),
                                              (''b'', JNum (Fin 0))])])"
    using e by simp
qed

text \<open>
  Pure green, \<open>"0,255,0"\<close>: the luma 149.685 is no tie, and the brightness emitted is 150.
\<close>

theorem rgb_encode_well_formed_witness:
  "int_literal ''0'' = Some 0 \<and> int_literal ''255'' = Some 255
   \<and> \<bar>255 :: int\<bar> \<le> 2 ^ 32 \<and> \<bar>0 :: int\<bar> \<le> 2 ^ 32
   \<and> (299 * 0 + 587 * 255 + 114 * 0) mod 1000 \<noteq> (500 :: int)
   \<and> (\<exists>events. rgb_encode ''0,255,0''
        = Inr (events,
               JObj [(''state'', JStr ''ON''), (''brightness'', JNum (Fin 150)),
                     (''color'', JObj [(''r'', JNum (Fin 0)), (''g'', JNum (Fin 255)),
                                       (''b'', JNum (Fin 0))])]))"
proof -
  have b: "\<bar>255 :: int\<bar> \<le> 2 ^ 32" "\<bar>0 :: int\<bar> \<le> 2 ^ 32" by simp_all
  obtain l :: int and events where
    e: "rgb_encode (''0'' @ '','' @ ''255'' @ '','' @ ''0'')
             = Inr (events,
                    JObj [(''state'', JStr (if l = 0 then ''OFF'' else ''ON'')),
                          (''brightness'', JNum (Fin (of_int l))),
                          (''color'', JObj [(''r'', JNum (Fin (of_int 0))),
                                            (''g'', JNum (Fin (of_int 255))),
                                            (''b'', JNum (Fin (of_int 0)))])])"
    and l: "if (299 * 0 + 587 * 255 + 114 * 0) mod 1000 = (500 :: int)
            then l = spec_luma 0 255 0 \<or> l = spec_luma 0 255 0 - 1
            else l = spec_luma 0 255 0"
    using rgb_encode_well_formed[OF literals(2) literals(1) literals(2) b(2) b(1) b(2),
        THEN conjunct1] by blast
  have "l = 150" using l by (simp add: spec_luma_div)
  then show ?thesis using e b literals by simp
qed

section \<open>Missing and falsy fields\<close>

text \<open>
  C6, as stated, fails for one JSON text: \<open>null\<close> has no \<open>state\<close>, and reading a property
  of \<open>null\<close> throws a TypeError.
\<close>

theorem decode_null_raises:
  "on_decode JNull = Inl TypeError"
  by (simp add: on_decode_def)

text \<open>
  C6, amended. For every JSON wire message other than \<open>null\<close>, each of the four decoders
  reads its field (\<open>state\<close>, \<open>brightness\<close>, \<open>color_temp\<close>, \<open>color\<close>) without an error, an
  absent field reading as \<open>undefined\<close>; when the field is falsy (absent, \<open>null\<close>, \<open>false\<close>,
  zero or the empty string) the decoder returns \<open>undefined\<close>.
\<close>

theorem decode_falsy_field:
  assumes "msg \<noteq> JNull" "msg \<noteq> JUndefined"
  shows "(\<exists>f. get msg ''state'' = Inr f \<and> (\<not> truthy f \<longrightarrow> on_decode msg = Inr JUndefined))
       \<and> (\<exists>f. get msg ''brightness'' = Inr f
               \<and> (\<not> truthy f \<longrightarrow> brightness_decode msg = Inr JUndefined))
       \<and> (\<exists>f. get msg ''color_temp'' = Inr f
               \<and> (\<not> truthy f \<longrightarrow> colorTemperature_decode msg = Inr JUndefined))
       \<and> (\<exists>f. get msg ''color'' = Inr f
               \<and> (\<not> truthy f \<longrightarrow> snd (rgb_decode conv_join msg) = Inr JUndefined))"
  using assms
  by (cases msg)
     (simp_all add: on_decode_def brightness_decode_def colorTemperature_decode_def rgb_decode_def)

text \<open>A message whose \<open>state\<close> is empty, \<open>brightness\<close> zero, \<open>color\<close> null and \<open>color_temp\<close> absent.\<close>

theorem decode_falsy_field_witness:
  "JObj [(''state'', JStr ''''), (''brightness'', JNum (Fin 0)), (''color'', JNull)] \<noteq> JNull
   \<and> JObj [(''state'', JStr ''''), (''brightness'', JNum (Fin 0)), (''color'', JNull)] \<noteq> JUndefined
   \<and> on_decode (JObj [(''state'', JStr ''''), (''brightness'', JNum (Fin 0)), (''color'', JNull)])
       = Inr JUndefined
   \<and> brightness_decode (JObj [(''state'', JStr ''''), (''brightness'', JNum (Fin 0)), (''color'', JNull)])
       = Inr JUndefined
   \<and> colorTemperature_decode (JObj [(''state'', JStr ''''), (''brightness'', JNum (Fin 0)), (''color'', JNull)])
       = Inr JUndefined
   \<and> snd (rgb_decode (\<lambda>x y b. []) (JObj [(''state'', JStr ''''), (''brightness'', JNum (Fin 0)), (''color'', JNull)]))
       = Inr JUndefined"
  using decode_falsy_field[of "JObj [(''state'', JStr ''''), (''brightness'', JNum (Fin 0)), (''color'', JNull)]"
      "\<lambda>x y b. []"]
  by simp

end
